theory Spec2Isabelle
  imports Complex_Main "HOL-Library.AList"
begin

section \<open>JavaScript numbers\<close>

text \<open>
  Every quantity of the source is a TypeScript \<open>number\<close>. The timestamps start at
  \<open>-Infinity\<close> and the priority multiplies by their difference, so the special values
  are part of the model: a number is \<open>NaN\<close>, one of the two infinities, or a finite value.
  Finite values are reals; the rounding of finite double arithmetic is not modelled, and the
  two zeros are one value. The operations follow IEEE 754 on the special values.
\<close>

datatype jsnum = JNaN | JNegInf | JPosInf | JFin real

fun js_add :: "jsnum \<Rightarrow> jsnum \<Rightarrow> jsnum" where
  "js_add JNaN _ = JNaN"
| "js_add _ JNaN = JNaN"
| "js_add JPosInf JNegInf = JNaN"
| "js_add JNegInf JPosInf = JNaN"
| "js_add JPosInf _ = JPosInf"
| "js_add _ JPosInf = JPosInf"
| "js_add JNegInf _ = JNegInf"
| "js_add _ JNegInf = JNegInf"
| "js_add (JFin a) (JFin b) = JFin (a + b)"

fun js_neg :: "jsnum \<Rightarrow> jsnum" where
  "js_neg JNaN = JNaN"
| "js_neg JNegInf = JPosInf"
| "js_neg JPosInf = JNegInf"
| "js_neg (JFin a) = JFin (- a)"

definition js_sub :: "jsnum \<Rightarrow> jsnum \<Rightarrow> jsnum" where
  "js_sub a b = js_add a (js_neg b)"

fun js_sign_inf :: "bool \<Rightarrow> jsnum" where
  "js_sign_inf True = JPosInf"
| "js_sign_inf False = JNegInf"

fun js_mul :: "jsnum \<Rightarrow> jsnum \<Rightarrow> jsnum" where
  "js_mul JNaN _ = JNaN"
| "js_mul _ JNaN = JNaN"
| "js_mul (JFin a) (JFin b) = JFin (a * b)"
| "js_mul (JFin a) JPosInf = (if a = 0 then JNaN else js_sign_inf (a > 0))"
| "js_mul (JFin a) JNegInf = (if a = 0 then JNaN else js_sign_inf (a < 0))"
| "js_mul JPosInf (JFin b) = (if b = 0 then JNaN else js_sign_inf (b > 0))"
| "js_mul JNegInf (JFin b) = (if b = 0 then JNaN else js_sign_inf (b < 0))"
| "js_mul JPosInf JPosInf = JPosInf"
| "js_mul JNegInf JNegInf = JPosInf"
| "js_mul JPosInf JNegInf = JNegInf"
| "js_mul JNegInf JPosInf = JNegInf"

text \<open>The comparisons \<open><\<close> and \<open><=\<close>: false as soon as one side is \<open>NaN\<close>.\<close>

fun js_less :: "jsnum \<Rightarrow> jsnum \<Rightarrow> bool" where
  "js_less JNaN _ = False"
| "js_less _ JNaN = False"
| "js_less JPosInf _ = False"
| "js_less _ JNegInf = False"
| "js_less JNegInf _ = True"
| "js_less _ JPosInf = True"
| "js_less (JFin a) (JFin b) = (a < b)"

fun js_le :: "jsnum \<Rightarrow> jsnum \<Rightarrow> bool" where
  "js_le JNaN _ = False"
| "js_le _ JNaN = False"
| "js_le JNegInf _ = True"
| "js_le _ JPosInf = True"
| "js_le JPosInf _ = False"
| "js_le _ JNegInf = False"
| "js_le (JFin a) (JFin b) = (a \<le> b)"

text \<open>
  Truthiness of a number, and the idiom \<open>map.get(key) || 0\<close>: a missing key
  (\<open>undefined\<close>), \<open>NaN\<close> and zero all give \<open>0\<close>; \<open>-Infinity\<close> is truthy and is kept.
\<close>

fun js_truthy :: "jsnum \<Rightarrow> bool" where
  "js_truthy JNaN = False"
| "js_truthy (JFin a) = (a \<noteq> 0)"
| "js_truthy _ = True"

definition js_or_zero :: "jsnum option \<Rightarrow> jsnum" where
  "js_or_zero v = (case v of None \<Rightarrow> JFin 0 | Some x \<Rightarrow> if js_truthy x then x else JFin 0)"

text \<open>
  The canoe counter holds a whole number and is changed by \<open>--\<close> and \<open>++\<close> only. A double
  holds every integer up to \<open>2^53\<close> in magnitude and, above that, only the multiples of a
  power of two (\<open>js_ulp\<close>); the result of a step of 1 is rounded to the nearest of these,
  a tie going to the even significand. \<open>js_round_int\<close> is that rounding on the integers;
  a step of 1 never reaches the overflow to infinity.
\<close>

function js_ulp :: "nat \<Rightarrow> nat" where
  "js_ulp a = (if a < 2 ^ 53 then 1 else 2 * js_ulp (a div 2))"
  by pat_completeness auto
termination
  by (relation "measure id") auto

declare js_ulp.simps [simp del]

definition js_round_int :: "int \<Rightarrow> int" where
  "js_round_int n =
     (let a = nat \<bar>n\<bar>;
          u = js_ulp a;
          q = a div u;
          r = a mod u;
          q' = (if 2 * r < u then q else if u < 2 * r then q + 1
                else if even q then q else q + 1)
      in sgn n * int (q' * u))"

definition js_dec :: "int \<Rightarrow> int" where
  "js_dec k = js_round_int (k - 1)"

definition js_inc :: "int \<Rightarrow> int" where
  "js_inc k = js_round_int (k + 1)"

section \<open>The island network\<close>

text \<open>
  The type \<open>Neighbor\<close> and the fields of class \<open>IslandNetwork\<close>. The graph is a finite
  association list (looked up with \<open>map_of\<close>, written with \<open>AList.update\<close>): the nodes it
  mentions bound every traversal. The two metadata maps are only ever looked up by key.
  The canoe counter is a number that holds a count: the field is an integer, stepped by
  \<open>js_dec\<close> and \<open>js_inc\<close>, and a pool that is not a whole number is outside the model.
  The counts of experiences and resources, which only grow from 0 or 1 in steps of 1, are
  naturals.
  The tours of \<open>Problem1.ts\<close> and \<open>Problem4.ts\<close> are this class without the
  distribution fields; their \<open>dfs\<close> and \<open>findMaxExperiences\<close> are the same text.
\<close>

record neighbor =
  node :: string
  travelTime :: jsnum
  resourceOrExperienceTime :: jsnum

record island_network =
  graph :: "(string \<times> neighbor list) list"
  populations :: "string \<rightharpoonup> jsnum"
  lastVisit :: "string \<rightharpoonup> jsnum"
  canoesAvailable :: int
  resourcesDistributed :: "string set"

definition new_IslandNetwork :: "int \<Rightarrow> island_network" where
  "new_IslandNetwork canoes =
     \<lparr>graph = [], populations = Map.empty, lastVisit = Map.empty,
      canoesAvailable = canoes, resourcesDistributed = {}\<rparr>"

definition addIslandOrExperience ::
  "island_network \<Rightarrow> string \<Rightarrow> neighbor list \<Rightarrow> jsnum option \<Rightarrow> island_network" where
  "addIslandOrExperience net island neighbors population =
     (let net1 = net\<lparr>graph := AList.update island neighbors (graph net)\<rparr>
      in case population of
           None \<Rightarrow> net1
         | Some p \<Rightarrow> net1\<lparr>populations := (populations net1)(island \<mapsto> p),
                          lastVisit := (lastVisit net1)(island \<mapsto> JNegInf)\<rparr>)"

text \<open>\<open>this.graph.get(island) || []\<close>: an island that was never added has no neighbours.\<close>

definition neighbors_of :: "island_network \<Rightarrow> string \<Rightarrow> neighbor list" where
  "neighbors_of net island = (case map_of (graph net) island of None \<Rightarrow> [] | Some ns \<Rightarrow> ns)"

text \<open>The targets of all edges of the graph: a finite set.\<close>

definition graph_nodes :: "island_network \<Rightarrow> string set" where
  "graph_nodes net = (\<Union>entry \<in> set (graph net). node ` set (snd entry))"

abbreviation newTime_of :: "jsnum \<Rightarrow> neighbor \<Rightarrow> jsnum" where
  "newTime_of totalTime neighbor \<equiv>
     js_add (js_add totalTime (travelTime neighbor)) (resourceOrExperienceTime neighbor)"

section \<open>Depth-first search for experiences\<close>

text \<open>
  The method \<open>dfs\<close> and its \<open>for\<close> loop over the neighbours, as two mutually recursive
  functions: \<open>dfs_loop\<close> is the loop on the neighbours that remain. The set \<open>visited\<close> is
  an object the source mutates in place, and the network is \<open>this\<close>; both are passed in and
  returned. The source compares against the literal \<open>100\<close>; here the bound is the
  parameter \<open>limit\<close>, which \<open>findMaxExperiences\<close> sets to 100.
\<close>

function dfs :: "island_network \<Rightarrow> jsnum \<Rightarrow> string \<Rightarrow> string set \<Rightarrow> jsnum \<Rightarrow> nat \<Rightarrow> nat
                  \<Rightarrow> nat \<times> string set \<times> island_network"
  and dfs_loop :: "island_network \<Rightarrow> jsnum \<Rightarrow> neighbor list \<Rightarrow> string set \<Rightarrow> jsnum \<Rightarrow> nat \<Rightarrow> nat
                  \<Rightarrow> nat \<times> string set \<times> island_network"
where
  "dfs net limit current visited totalTime maxExperiencesCount experienceCount =
     dfs_loop net limit (neighbors_of net current) visited totalTime
       (max maxExperiencesCount experienceCount) experienceCount"
| "dfs_loop net limit [] visited totalTime currentMaxExperiences experienceCount =
     (currentMaxExperiences, visited, net)"
| "dfs_loop net limit (neighbor # rest) visited totalTime currentMaxExperiences experienceCount =
     (let nextNode = node neighbor in
      if nextNode \<notin> visited then
        let visited1 = insert nextNode visited;
            newTime = js_add (js_add totalTime (travelTime neighbor)) (resourceOrExperienceTime neighbor);
            newExperienceCount = experienceCount + 1;
            (max2, visited2, net2) =
               (if js_less newTime limit
                then dfs net limit nextNode visited1 newTime currentMaxExperiences newExperienceCount
                else (currentMaxExperiences, visited1, net))
        in dfs_loop net2 limit rest (visited2 - {nextNode}) totalTime max2 experienceCount
      else dfs_loop net limit rest visited totalTime currentMaxExperiences experienceCount)"
  by pat_completeness auto

text \<open>
  The loop continues with the set and the network that the recursive call returns, so the
  proof that the search terminates first needs that a call which returns gives both back
  unchanged.
\<close>

lemma finite_graph_nodes: "finite (graph_nodes net)"
  by (simp add: graph_nodes_def)

lemma neighbors_of_nodes: "node ` set (neighbors_of net island) \<subseteq> graph_nodes net"
proof (cases "map_of (graph net) island")
  case None
  then show ?thesis by (simp add: neighbors_of_def)
next
  case (Some ns)
  then have "(island, ns) \<in> set (graph net)" by (rule map_of_SomeD)
  then have "node ` set ns \<subseteq> graph_nodes net"
    by (force simp: graph_nodes_def)
  with Some show ?thesis by (simp add: neighbors_of_def)
qed

lemma graph_nodes_cong: "graph net' = graph net \<Longrightarrow> graph_nodes net' = graph_nodes net"
  by (simp add: graph_nodes_def)

lemma neighbors_of_cong: "graph net' = graph net \<Longrightarrow> neighbors_of net' = neighbors_of net"
  by (rule ext) (simp add: neighbors_of_def)

lemma graph_nodes_update [simp]:
  "graph_nodes (net\<lparr>resourcesDistributed := d\<rparr>) = graph_nodes net"
  "graph_nodes (net\<lparr>canoesAvailable := k\<rparr>) = graph_nodes net"
  "graph_nodes (net\<lparr>lastVisit := lv\<rparr>) = graph_nodes net"
  by (simp_all add: graph_nodes_def)

lemma neighbors_of_update [simp]:
  "neighbors_of (net\<lparr>resourcesDistributed := d\<rparr>) = neighbors_of net"
  "neighbors_of (net\<lparr>canoesAvailable := k\<rparr>) = neighbors_of net"
  "neighbors_of (net\<lparr>lastVisit := lv\<rparr>) = neighbors_of net"
  by (rule ext, simp add: neighbors_of_def)+

lemma dfs_frame_dom:
  "dfs_dfs_loop_dom (Inl (net, limit, current, visited, totalTime, m, c)) \<Longrightarrow>
     snd (dfs net limit current visited totalTime m c) = (visited, net)"
  "dfs_dfs_loop_dom (Inr (net, limit, ns, visited, totalTime, m, c)) \<Longrightarrow>
     snd (dfs_loop net limit ns visited totalTime m c) = (visited, net)"
proof (induct rule: dfs_dfs_loop.pinduct)
  case (1 net limit current visited totalTime maxExperiencesCount experienceCount)
  then show ?case by (simp add: dfs.psimps)
next
  case (2 net limit visited totalTime currentMaxExperiences experienceCount)
  then show ?case by (simp add: dfs_loop.psimps)
next
  case (3 net limit neighbor rest visited totalTime currentMaxExperiences experienceCount)
  show ?case
  proof (cases "node neighbor \<in> visited")
    case True
    with 3 show ?thesis by (simp add: dfs_loop.psimps)
  next
    case False
    define n where "n = node neighbor"
    define newTime where "newTime = newTime_of totalTime neighbor"
    from False have nv: "n \<notin> visited" by (simp add: n_def)
    show ?thesis
    proof (cases "js_less newTime limit")
      case True
      from 3(2)[OF n_def nv refl newTime_def refl True]
      obtain m2 where call:
        "dfs net limit n (insert n visited) newTime currentMaxExperiences (experienceCount + 1)
           = (m2, insert n visited, net)"
        by (metis prod.collapse)
      from True call have xd: "(m2, insert n visited, net) =
        (if js_less newTime limit
         then dfs net limit n (insert n visited) newTime currentMaxExperiences (experienceCount + 1)
         else (currentMaxExperiences, insert n visited, net))" by simp
      from 3(3)[OF n_def nv refl newTime_def refl refl xd refl]
      have "snd (dfs_loop net limit rest (insert n visited - {n}) totalTime m2 experienceCount)
              = (insert n visited - {n}, net)" .
      with 3(1) nv True call show ?thesis
        by (simp add: dfs_loop.psimps n_def[symmetric] newTime_def[symmetric])
    next
      case nless: False
      then have xd: "(currentMaxExperiences, insert n visited, net) =
        (if js_less newTime limit
         then dfs net limit n (insert n visited) newTime currentMaxExperiences (experienceCount + 1)
         else (currentMaxExperiences, insert n visited, net))" by simp
      from 3(3)[OF n_def nv refl newTime_def refl refl xd refl]
      have "snd (dfs_loop net limit rest (insert n visited - {n}) totalTime
                   currentMaxExperiences experienceCount)
              = (insert n visited - {n}, net)" .
      with 3(1) nv nless show ?thesis
        by (simp add: dfs_loop.psimps n_def[symmetric] newTime_def[symmetric])
    qed
  qed
qed

text \<open>
  The measure: the number of graph nodes not on the current path, then the call before its
  loop, then the neighbours that remain. Every descent puts one more node on the path.
\<close>

lemma card_remaining_mono:
  "card ((graph_nodes net \<union> node ` set rest) - visited)
     \<le> card ((graph_nodes net \<union> node ` set (neighbor # rest)) - visited)"
  by (rule card_mono) (auto simp: finite_graph_nodes)

lemma card_remaining_less:
  assumes "node neighbor \<notin> visited"
  shows "card (graph_nodes net - insert (node neighbor) visited)
     < card ((graph_nodes net \<union> node ` set (neighbor # rest)) - visited)"
  by (rule psubset_card_mono) (use assms in \<open>auto simp: finite_graph_nodes\<close>)

lemma card_remaining_neighbors:
  "card ((graph_nodes net \<union> node ` set (neighbors_of net current)) - visited)
     = card (graph_nodes net - visited)"
  using neighbors_of_nodes[of net current] by (simp add: Un_absorb2)

lemma dfs_total: "All dfs_dfs_loop_dom"
proof (rule "dfs_dfs_loop.termination"[where R = "measures
    [case_sum (\<lambda>(net, limit, current, visited, rest). card (graph_nodes net - visited))
              (\<lambda>(net, limit, ns, visited, rest). card ((graph_nodes net \<union> node ` set ns) - visited)),
     case_sum (\<lambda>_. 1) (\<lambda>_. 0),
     case_sum (\<lambda>_. 0) (\<lambda>(net, limit, ns, rest). length ns)]"], goal_cases)
  case 1
  then show ?case by simp
next
  case (2 net limit current visited totalTime maxExperiencesCount experienceCount)
  then show ?case by (simp add: card_remaining_neighbors)
next
  case (3 net limit neighbor rest visited totalTime currentMaxExperiences experienceCount x xa xb xc)
  then show ?case using card_remaining_less[of neighbor visited net rest] by simp
next
  case (4 net limit neighbor rest visited totalTime currentMaxExperiences experienceCount
          x xa xb xc xd xaa y xab ya)
  have "(xab, ya) = (xa, net)"
  proof (cases "js_less xb limit")
    case True
    with 4 have "dfs_dfs_loop_dom (Inl (net, limit, x, xa, xb, currentMaxExperiences, xc))" by simp
    from dfs_frame_dom(1)[OF this] 4 True show ?thesis by (metis snd_conv)
  next
    case False
    with 4 show ?thesis by simp
  qed
  with 4 have "xab - {x} = visited" "ya = net" by auto
  then show ?case
    using card_remaining_mono[of net rest visited neighbor] by auto
next
  case (5 net limit neighbor rest visited totalTime currentMaxExperiences experienceCount x)
  then show ?case using card_remaining_mono[of net rest visited neighbor] by auto
qed

termination dfs
  by (rule dfs_total)

lemma dfs_frame:
  "snd (dfs net limit current visited totalTime m c) = (visited, net)"
  "snd (dfs_loop net limit ns visited totalTime m c) = (visited, net)"
  by (rule dfs_frame_dom(1)[OF spec[OF dfs_total]])
     (rule dfs_frame_dom(2)[OF spec[OF dfs_total]])

text \<open>
  \<open>findMaxExperiences\<close>, with the bound as a parameter (the spec's \<open>maxReachableCount\<close>)
  and at the source's bound of 100. The network after the call is returned with the count.
\<close>

definition maxReachableCount :: "island_network \<Rightarrow> string \<Rightarrow> jsnum \<Rightarrow> nat \<times> island_network" where
  "maxReachableCount net start limit =
     (let visited = {start};
          (result, visited', net') = dfs net limit start visited (JFin 0) 0 1
      in (result, net'))"

definition findMaxExperiences :: "island_network \<Rightarrow> string \<Rightarrow> nat \<times> island_network" where
  "findMaxExperiences net start = maxReachableCount net start (JFin 100)"

subsection \<open>The calls of a search\<close>

text \<open>
  An observer of the same run: one entry for every invocation of \<open>dfs\<close>, in the order of
  the calls, holding the recursion stack (the \<open>current\<close> arguments of the open calls,
  innermost first) and the arguments \<open>visited\<close>, \<open>totalTime\<close> and \<open>experienceCount\<close> at
  entry. It follows the equations of \<open>dfs\<close> and takes from \<open>dfs\<close> what a call returns.
\<close>

type_synonym dfs_call = "string list \<times> string set \<times> jsnum \<times> nat"

function dfs_calls :: "island_network \<Rightarrow> jsnum \<Rightarrow> string \<Rightarrow> string set \<Rightarrow> jsnum \<Rightarrow> nat \<Rightarrow> nat
                  \<Rightarrow> string list \<Rightarrow> dfs_call list"
  and dfs_loop_calls :: "island_network \<Rightarrow> jsnum \<Rightarrow> neighbor list \<Rightarrow> string set \<Rightarrow> jsnum \<Rightarrow> nat \<Rightarrow> nat
                  \<Rightarrow> string list \<Rightarrow> dfs_call list"
where
  "dfs_calls net limit current visited totalTime maxExperiencesCount experienceCount stack =
     (stack, visited, totalTime, experienceCount) #
     dfs_loop_calls net limit (neighbors_of net current) visited totalTime
       (max maxExperiencesCount experienceCount) experienceCount stack"
| "dfs_loop_calls net limit [] visited totalTime currentMaxExperiences experienceCount stack = []"
| "dfs_loop_calls net limit (neighbor # rest) visited totalTime currentMaxExperiences experienceCount stack =
     (let nextNode = node neighbor in
      if nextNode \<notin> visited then
        let visited1 = insert nextNode visited;
            newTime = js_add (js_add totalTime (travelTime neighbor)) (resourceOrExperienceTime neighbor);
            newExperienceCount = experienceCount + 1
        in if js_less newTime limit then
             let (max2, visited2, net2) =
                   dfs net limit nextNode visited1 newTime currentMaxExperiences newExperienceCount
             in dfs_calls net limit nextNode visited1 newTime currentMaxExperiences newExperienceCount
                  (nextNode # stack)
                @ dfs_loop_calls net2 limit rest (visited2 - {nextNode}) totalTime max2
                    experienceCount stack
           else dfs_loop_calls net limit rest (visited1 - {nextNode}) totalTime
                  currentMaxExperiences experienceCount stack
      else dfs_loop_calls net limit rest visited totalTime currentMaxExperiences experienceCount stack)"
  by pat_completeness auto

termination dfs_calls
proof (relation "measures
    [case_sum (\<lambda>(net, limit, current, visited, rest). card (graph_nodes net - visited))
              (\<lambda>(net, limit, ns, visited, rest). card ((graph_nodes net \<union> node ` set ns) - visited)),
     case_sum (\<lambda>_. 1) (\<lambda>_. 0),
     case_sum (\<lambda>_. 0) (\<lambda>(net, limit, ns, rest). length ns)]", goal_cases)
  case 1
  then show ?case by simp
next
  case (2 net limit current visited totalTime maxExperiencesCount experienceCount stack)
  then show ?case by (simp add: card_remaining_neighbors)
next
  case (3 net limit neighbor rest visited totalTime currentMaxExperiences experienceCount stack x xa xb xc)
  then show ?case using card_remaining_less[of neighbor visited net rest] by simp
next
  case (4 net limit neighbor rest visited totalTime currentMaxExperiences experienceCount stack
          x xa xb xc xd xe y xda ya)
  from 4 dfs_frame(1)[of net limit x xa xb currentMaxExperiences xc]
  have "xda = xa" "ya = net" by (auto simp: snd_def split: prod.splits)
  with 4 have "xda - {x} = visited" "ya = net" by auto
  then show ?case
    using card_remaining_mono[of net rest visited neighbor] by auto
next
  case (5 net limit neighbor rest visited totalTime currentMaxExperiences experienceCount stack
          x xa xb xc)
  then have "xa - {x} = visited" by auto
  then show ?case
    using card_remaining_mono[of net rest visited neighbor] by auto
next
  case (6 net limit neighbor rest visited totalTime currentMaxExperiences experienceCount stack x)
  then show ?case using card_remaining_mono[of net rest visited neighbor] by auto
qed

definition maxReachableCount_calls :: "island_network \<Rightarrow> string \<Rightarrow> jsnum \<Rightarrow> dfs_call list" where
  "maxReachableCount_calls net start limit =
     (let visited = {start} in dfs_calls net limit start visited (JFin 0) 0 1 [start])"

section \<open>Priority\<close>

text \<open>
  \<open>calculatePriority\<close>. The source reads \<open>Date.now()\<close>, a whole number of milliseconds;
  here it is the argument \<open>now\<close>.
\<close>

definition calculatePriority :: "island_network \<Rightarrow> int \<Rightarrow> string \<Rightarrow> jsnum" where
  "calculatePriority net now island =
     (let population = js_or_zero (populations net island);
          recencyFactor = js_sub (JFin (of_int now)) (js_or_zero (lastVisit net island))
      in js_mul population recencyFactor)"

section \<open>Knowledge sharing\<close>

text \<open>
  \<open>shareKnowledge\<close>. The clock is an input: \<open>clock k\<close> is what the \<open>k\<close>-th evaluation of
  \<open>Date.now()\<close> returns, and \<open>reads\<close> counts the evaluations so far. The inner loop over the
  neighbours reads the clock only when the neighbour is already in \<open>visited\<close>, as the
  short-circuit \<open>||\<close> does. The \<open>while\<close> loop may run forever, so it returns an option:
  \<open>None\<close> is a loop that never ends. The console output is left out.
\<close>

fun shareKnowledge_neighbors ::
  "(nat \<Rightarrow> int) \<Rightarrow> jsnum \<Rightarrow> island_network \<Rightarrow> neighbor list \<Rightarrow> string set \<Rightarrow> string list \<Rightarrow> nat
     \<Rightarrow> string set \<times> string list \<times> nat" where
  "shareKnowledge_neighbors clock visitInterval net [] visited queue reads = (visited, queue, reads)"
| "shareKnowledge_neighbors clock visitInterval net (neighbor # rest) visited queue reads =
     (let nextNode = node neighbor in
      if nextNode \<notin> visited then
        shareKnowledge_neighbors clock visitInterval net rest
          (insert nextNode visited) (queue @ [nextNode]) reads
      else if js_less visitInterval
                (js_sub (JFin (of_int (clock reads))) (js_or_zero (lastVisit net nextNode))) then
        shareKnowledge_neighbors clock visitInterval net rest
          (insert nextNode visited) (queue @ [nextNode]) (reads + 1)
      else shareKnowledge_neighbors clock visitInterval net rest visited queue (reads + 1))"

partial_function (option) shareKnowledge_loop ::
  "(nat \<Rightarrow> int) \<Rightarrow> jsnum \<Rightarrow> island_network \<Rightarrow> string set \<Rightarrow> string list \<Rightarrow> nat
     \<Rightarrow> island_network option" where
  "shareKnowledge_loop clock visitInterval net visited queue reads =
     (case queue of
        [] \<Rightarrow> Some net
      | currentIsland # queue1 \<Rightarrow>
          if currentIsland = [] then shareKnowledge_loop clock visitInterval net visited queue1 reads
          else
            let net1 = net\<lparr>lastVisit := (lastVisit net)(currentIsland \<mapsto> JFin (of_int (clock reads)))\<rparr>;
                (visited2, queue2, reads2) =
                   shareKnowledge_neighbors clock visitInterval net1
                     (neighbors_of net1 currentIsland) visited queue1 (reads + 1)
            in shareKnowledge_loop clock visitInterval net1 visited2 queue2 reads2)"

definition shareKnowledge ::
  "(nat \<Rightarrow> int) \<Rightarrow> island_network \<Rightarrow> string \<Rightarrow> jsnum \<Rightarrow> island_network option" where
  "shareKnowledge clock net start visitInterval =
     (let visited = {start}; queue = [start]
      in shareKnowledge_loop clock visitInterval net visited queue 0)"

section \<open>Resource distribution\<close>

text \<open>
  \<open>distributeResource\<close> and its loop over the neighbours. The counter \<open>canoesAvailable\<close>
  and the set \<open>resourcesDistributed\<close> are fields of the network, which is passed in and
  returned with the running count.
\<close>

function distributeResource :: "island_network \<Rightarrow> string \<Rightarrow> jsnum \<Rightarrow> nat \<Rightarrow> nat \<times> island_network"
  and distributeResource_loop ::
    "island_network \<Rightarrow> neighbor list \<Rightarrow> jsnum \<Rightarrow> nat \<Rightarrow> nat \<times> island_network"
where
  "distributeResource net current totalTime resourceCount =
     (if current \<in> resourcesDistributed net then (resourceCount, net)
      else
        let net1 = net\<lparr>resourcesDistributed := insert current (resourcesDistributed net)\<rparr>;
            resourceCount1 = resourceCount + 1
        in distributeResource_loop net1 (neighbors_of net1 current) totalTime resourceCount1)"
| "distributeResource_loop net [] totalTime resourceCount = (resourceCount, net)"
| "distributeResource_loop net (neighbor # rest) totalTime resourceCount =
     (let nextIsland = node neighbor in
      if canoesAvailable net > 0 \<and>
         js_less (js_add (js_add totalTime (travelTime neighbor)) (resourceOrExperienceTime neighbor))
           (JFin 100)
      then
        let newTotalTime =
              js_add (js_add totalTime (travelTime neighbor)) (resourceOrExperienceTime neighbor);
            net1 = net\<lparr>canoesAvailable := js_dec (canoesAvailable net)\<rparr>;
            (resourceCount2, net2) = distributeResource net1 nextIsland newTotalTime resourceCount;
            net3 = net2\<lparr>canoesAvailable := js_inc (canoesAvailable net2)\<rparr>
        in distributeResource_loop net3 rest totalTime resourceCount2
      else distributeResource_loop net rest totalTime resourceCount)"
  by pat_completeness auto

text \<open>
  Here the loop continues with the network a call returns; a call that returns has kept
  the graph and has only added to \<open>resourcesDistributed\<close>.
\<close>

lemma distributeResource_grows_dom:
  "distributeResource_distributeResource_loop_dom (Inl (net, current, totalTime, rc)) \<Longrightarrow>
     graph (snd (distributeResource net current totalTime rc)) = graph net \<and>
     resourcesDistributed net \<subseteq> resourcesDistributed (snd (distributeResource net current totalTime rc))"
  "distributeResource_distributeResource_loop_dom (Inr (net, ns, totalTime, rc)) \<Longrightarrow>
     graph (snd (distributeResource_loop net ns totalTime rc)) = graph net \<and>
     resourcesDistributed net \<subseteq> resourcesDistributed (snd (distributeResource_loop net ns totalTime rc))"
proof (induct rule: distributeResource_distributeResource_loop.pinduct)
  case (1 net current totalTime resourceCount)
  then show ?case
    by (auto simp: distributeResource.psimps Let_def)
next
  case (2 net totalTime resourceCount)
  then show ?case by (simp add: distributeResource_loop.psimps)
next
  case (3 net neighbor rest totalTime resourceCount)
  define newTotalTime where "newTotalTime = newTime_of totalTime neighbor"
  define net1 where "net1 = net\<lparr>canoesAvailable := js_dec (canoesAvailable net)\<rparr>"
  show ?case
  proof (cases "canoesAvailable net > 0 \<and> js_less newTotalTime (JFin 100)")
    case False
    then have ncond: "\<not> (canoesAvailable net > 0 \<and>
      js_less (newTime_of totalTime neighbor) (JFin 100))"
      by (simp add: newTotalTime_def)
    have "distributeResource_loop net (neighbor # rest) totalTime resourceCount
          = distributeResource_loop net rest totalTime resourceCount"
      using 3(1) ncond by (simp only: distributeResource_loop.psimps Let_def if_False)
    with 3(4)[OF refl ncond] show ?thesis by simp
  next
    case True
    then have cond: "canoesAvailable net > 0 \<and>
      js_less (newTime_of totalTime neighbor) (JFin 100)"
      by (simp add: newTotalTime_def)
    obtain rc2 net2 where call:
      "(rc2, net2) = distributeResource net1 (node neighbor) newTotalTime resourceCount"
      by (metis prod.collapse)
    define net3 where "net3 = net2\<lparr>canoesAvailable := js_inc (canoesAvailable net2)\<rparr>"
    from 3(2)[OF refl cond newTotalTime_def net1_def] call
    have a: "graph net2 = graph net1" "resourcesDistributed net1 \<subseteq> resourcesDistributed net2"
      by (metis snd_conv)+
    from 3(3)[OF refl cond newTotalTime_def net1_def call refl net3_def]
    have b: "graph (snd (distributeResource_loop net3 rest totalTime rc2)) = graph net3"
      "resourcesDistributed net3
         \<subseteq> resourcesDistributed (snd (distributeResource_loop net3 rest totalTime rc2))"
      by simp_all
    have eq: "distributeResource_loop net (neighbor # rest) totalTime resourceCount
          = distributeResource_loop net3 rest totalTime rc2"
      using 3(1) cond call[symmetric]
      by (simp add: distributeResource_loop.psimps Let_def
            newTotalTime_def[symmetric] net1_def[symmetric] net3_def[symmetric])
    from a b show ?thesis
      unfolding eq by (auto simp: net1_def net3_def)
  qed
qed

text \<open>
  The measure: the number of nodes that have not received a resource, then the loop
  before a call, then the neighbours that remain.
\<close>

lemma card_undistributed_mono:
  assumes "graph net' = graph net" "resourcesDistributed net \<subseteq> resourcesDistributed net'"
  shows "card ((graph_nodes net' \<union> node ` set rest) - resourcesDistributed net')
     \<le> card ((graph_nodes net \<union> node ` set (neighbor # rest)) - resourcesDistributed net)"
  unfolding graph_nodes_cong[OF assms(1)]
  using assms(2) by (intro card_mono) (auto simp: finite_graph_nodes)

lemma card_undistributed_less:
  assumes "current \<notin> resourcesDistributed net"
  shows "card ((graph_nodes net \<union> node ` set (neighbors_of net current))
                - insert current (resourcesDistributed net))
     < card ((graph_nodes net \<union> {current}) - resourcesDistributed net)"
  using assms neighbors_of_nodes[of net current]
  by (intro psubset_card_mono) (auto simp: finite_graph_nodes)

lemma distributeResource_total: "All distributeResource_distributeResource_loop_dom"
proof (rule "distributeResource_distributeResource_loop.termination"[where R = "measures
    [case_sum (\<lambda>(net, current, rest). card ((graph_nodes net \<union> {current}) - resourcesDistributed net))
              (\<lambda>(net, ns, rest). card ((graph_nodes net \<union> node ` set ns) - resourcesDistributed net)),
     case_sum (\<lambda>_. 0) (\<lambda>_. 1),
     case_sum (\<lambda>_. 0) (\<lambda>(net, ns, rest). length ns)]"], goal_cases)
  case 1
  then show ?case by simp
next
  case (2 net current totalTime resourceCount x xa)
  then show ?case
    using card_undistributed_less[of current net] by simp
next
  case (3 net neighbor rest totalTime resourceCount x xa xb)
  have "card ((graph_nodes xb \<union> {x}) - resourcesDistributed xb)
     \<le> card ((graph_nodes net \<union> node ` set (neighbor # rest)) - resourcesDistributed net)"
    using 3 by (intro card_mono) (auto simp: finite_graph_nodes)
  then show ?case by auto
next
  case (4 net neighbor rest totalTime resourceCount x xa xb xc xd y xe)
  from 4 have "distributeResource_distributeResource_loop_dom (Inl (xb, x, xa, resourceCount))"
    by simp
  from distributeResource_grows_dom(1)[OF this] 4
  have "graph xe = graph net" "resourcesDistributed net \<subseteq> resourcesDistributed xe"
    by (auto simp: snd_def split: prod.splits)
  from card_undistributed_mono[OF this, of rest neighbor] show ?case by auto
next
  case (5 net neighbor rest totalTime resourceCount x)
  from card_undistributed_mono[OF refl subset_refl, of net rest neighbor] show ?case by auto
qed

termination distributeResource
  by (rule distributeResource_total)

lemma distributeResource_grows:
  "graph (snd (distributeResource net current totalTime rc)) = graph net \<and>
   resourcesDistributed net \<subseteq> resourcesDistributed (snd (distributeResource net current totalTime rc))"
  "graph (snd (distributeResource_loop net ns totalTime rc)) = graph net \<and>
   resourcesDistributed net \<subseteq> resourcesDistributed (snd (distributeResource_loop net ns totalTime rc))"
  by (rule distributeResource_grows_dom(1)[OF spec[OF distributeResource_total]])
     (rule distributeResource_grows_dom(2)[OF spec[OF distributeResource_total]])

definition distributeFrom :: "island_network \<Rightarrow> string \<Rightarrow> nat \<times> island_network" where
  "distributeFrom net start =
     (let net1 = net\<lparr>resourcesDistributed := {}\<rparr>
      in distributeResource net1 start (JFin 0) 0)"

subsection \<open>The calls of a distribution\<close>

text \<open>
  An observer of the same run: one entry for every invocation of \<open>distributeResource\<close>,
  in the order of the calls, holding the number of open recursive calls that took a canoe
  (\<open>depth\<close>: 0 for the call made by \<open>distributeFrom\<close>, one more for each descent) and the
  value of \<open>canoesAvailable\<close> at entry.
\<close>

type_synonym canoe_snapshot = "nat \<times> int"

function distributeResource_calls ::
    "island_network \<Rightarrow> string \<Rightarrow> jsnum \<Rightarrow> nat \<Rightarrow> nat \<Rightarrow> canoe_snapshot list"
  and distributeResource_loop_calls ::
    "island_network \<Rightarrow> neighbor list \<Rightarrow> jsnum \<Rightarrow> nat \<Rightarrow> nat \<Rightarrow> canoe_snapshot list"
where
  "distributeResource_calls net current totalTime resourceCount depth =
     (depth, canoesAvailable net) #
     (if current \<in> resourcesDistributed net then []
      else
        let net1 = net\<lparr>resourcesDistributed := insert current (resourcesDistributed net)\<rparr>;
            resourceCount1 = resourceCount + 1
        in distributeResource_loop_calls net1 (neighbors_of net1 current) totalTime resourceCount1 depth)"
| "distributeResource_loop_calls net [] totalTime resourceCount depth = []"
| "distributeResource_loop_calls net (neighbor # rest) totalTime resourceCount depth =
     (let nextIsland = node neighbor in
      if canoesAvailable net > 0 \<and>
         js_less (js_add (js_add totalTime (travelTime neighbor)) (resourceOrExperienceTime neighbor))
           (JFin 100)
      then
        let newTotalTime =
              js_add (js_add totalTime (travelTime neighbor)) (resourceOrExperienceTime neighbor);
            net1 = net\<lparr>canoesAvailable := js_dec (canoesAvailable net)\<rparr>;
            (resourceCount2, net2) = distributeResource net1 nextIsland newTotalTime resourceCount;
            net3 = net2\<lparr>canoesAvailable := js_inc (canoesAvailable net2)\<rparr>
        in distributeResource_calls net1 nextIsland newTotalTime resourceCount (depth + 1)
           @ distributeResource_loop_calls net3 rest totalTime resourceCount2 depth
      else distributeResource_loop_calls net rest totalTime resourceCount depth)"
  by pat_completeness auto

termination distributeResource_calls
proof (relation "measures
    [case_sum (\<lambda>(net, current, rest). card ((graph_nodes net \<union> {current}) - resourcesDistributed net))
              (\<lambda>(net, ns, rest). card ((graph_nodes net \<union> node ` set ns) - resourcesDistributed net)),
     case_sum (\<lambda>_. 0) (\<lambda>_. 1),
     case_sum (\<lambda>_. 0) (\<lambda>(net, ns, rest). length ns)]", goal_cases)
  case 1
  then show ?case by simp
next
  case (2 net current totalTime resourceCount depth x xa)
  then show ?case
    using card_undistributed_less[of current net] by simp
next
  case (3 net neighbor rest totalTime resourceCount depth x xa xb xc xd y xe)
  have "card ((graph_nodes xb \<union> {x}) - resourcesDistributed xb)
     \<le> card ((graph_nodes net \<union> node ` set (neighbor # rest)) - resourcesDistributed net)"
    using 3 by (intro card_mono) (auto simp: finite_graph_nodes)
  then show ?case by auto
next
  case (4 net neighbor rest totalTime resourceCount depth x xa xb xc xd y xe)
  from distributeResource_grows(1)[of xb x xa resourceCount] 4
  have "graph xe = graph net" "resourcesDistributed net \<subseteq> resourcesDistributed xe"
    by (auto simp: snd_def split: prod.splits)
  from card_undistributed_mono[OF this, of rest neighbor] show ?case by auto
next
  case (5 net neighbor rest totalTime resourceCount depth x)
  from card_undistributed_mono[OF refl subset_refl, of net rest neighbor] show ?case by auto
qed

definition distributeFrom_calls :: "island_network \<Rightarrow> string \<Rightarrow> canoe_snapshot list" where
  "distributeFrom_calls net start =
     (let net1 = net\<lparr>resourcesDistributed := {}\<rparr>
      in distributeResource_calls net1 start (JFin 0) 0 0)"

abbreviation canDescend :: "island_network \<Rightarrow> jsnum \<Rightarrow> neighbor \<Rightarrow> bool" where
  "canDescend net totalTime neighbor \<equiv>
     canoesAvailable net > 0 \<and> js_less (newTime_of totalTime neighbor) (JFin 100)"

abbreviation descend :: "island_network \<Rightarrow> jsnum \<Rightarrow> neighbor \<Rightarrow> nat \<Rightarrow> nat \<times> island_network" where
  "descend net totalTime neighbor resourceCount \<equiv>
     distributeResource (net\<lparr>canoesAvailable := js_dec (canoesAvailable net)\<rparr>) (node neighbor)
       (newTime_of totalTime neighbor) resourceCount"

abbreviation released :: "island_network \<Rightarrow> island_network" where
  "released net \<equiv> net\<lparr>canoesAvailable := js_inc (canoesAvailable net)\<rparr>"

section \<open>Example networks\<close>

definition edge :: "string \<Rightarrow> real \<Rightarrow> real \<Rightarrow> neighbor" where
  "edge n t e = \<lparr>node = n, travelTime = JFin t, resourceOrExperienceTime = JFin e\<rparr>"

text \<open>A to B (10 + 5), A to C (15 + 8), B to D (20 + 12), with three canoes.\<close>

definition scenario_network :: island_network where
  "scenario_network =
     addIslandOrExperience
       (addIslandOrExperience (new_IslandNetwork 3)
          ''A'' [edge ''B'' 10 5, edge ''C'' 15 8] (Some (JFin 1000)))
       ''B'' [edge ''D'' 20 12] (Some (JFin 800))"

text \<open>Two islands that point at each other.\<close>

definition cycle_network :: island_network where
  "cycle_network =
     addIslandOrExperience
       (addIslandOrExperience (new_IslandNetwork 0) ''A'' [edge ''B'' 1 1] (Some (JFin 10)))
       ''B'' [edge ''A'' 1 1] (Some (JFin 20))"

text \<open>D is reached from A through B and through C.\<close>

definition diamond_network :: island_network where
  "diamond_network =
     addIslandOrExperience
       (addIslandOrExperience
          (addIslandOrExperience (new_IslandNetwork 3)
             ''A'' [edge ''B'' 10 5, edge ''C'' 15 8] None)
          ''B'' [edge ''D'' 20 12] None)
       ''C'' [edge ''D'' 10 7] None"

text \<open>One edge from A to B of the given cost, and no canoe.\<close>

definition single_edge_network :: "real \<Rightarrow> island_network" where
  "single_edge_network cost =
     addIslandOrExperience (new_IslandNetwork 0) ''A'' [edge ''B'' cost 0] None"

text \<open>One edge from A to B, and a pool of \<open>2^53 + 2\<close> canoes.\<close>

definition large_pool_network :: island_network where
  "large_pool_network =
     addIslandOrExperience (new_IslandNetwork 9007199254740994) ''A'' [edge ''B'' 10 5] None"

text \<open>One island, registered with the given population and never visited.\<close>

definition registered_network :: "real \<Rightarrow> island_network" where
  "registered_network population =
     addIslandOrExperience (new_IslandNetwork 0) ''A'' [] (Some (JFin population))"

text \<open>The test data of the source files: with the three canoes of the distribution.\<close>

definition test_network :: island_network where
  "test_network =
     addIslandOrExperience
       (addIslandOrExperience
          (addIslandOrExperience
             (addIslandOrExperience (new_IslandNetwork 3)
                ''experience1'' [edge ''experience2'' 10 5, edge ''experience3'' 15 8]
                (Some (JFin 1000)))
             ''experience2'' [edge ''experience4'' 20 12] (Some (JFin 800)))
          ''experience3'' [edge ''experience5'' 10 7] (Some (JFin 500)))
       ''experience4'' [] (Some (JFin 1200))"

section \<open>Equations of the loops\<close>

text \<open>
  One equation for a step of each loop, with the let-bindings resolved: a call of \<open>dfs\<close>
  gives back the set and the network it was given, so the loop goes on with those.
\<close>

lemma dfs_loop_Cons:
  "dfs_loop net limit (neighbor # rest) visited totalTime m c =
     (if node neighbor \<notin> visited \<and> js_less (newTime_of totalTime neighbor) limit
      then dfs_loop net limit rest visited totalTime
             (fst (dfs net limit (node neighbor) (insert (node neighbor) visited)
                     (newTime_of totalTime neighbor) m (c + 1))) c
      else dfs_loop net limit rest visited totalTime m c)"
proof -
  obtain m2 where "dfs net limit (node neighbor) (insert (node neighbor) visited)
                     (newTime_of totalTime neighbor) m (c + 1)
                   = (m2, insert (node neighbor) visited, net)"
    using dfs_frame(1)[of net limit "node neighbor" "insert (node neighbor) visited"
                          "newTime_of totalTime neighbor" m "c + 1"]
    by (metis prod.collapse)
  then show ?thesis by (simp add: Let_def)
qed

lemma dfs_loop_calls_Cons:
  "dfs_loop_calls net limit (neighbor # rest) visited totalTime m c stack =
     (if node neighbor \<notin> visited \<and> js_less (newTime_of totalTime neighbor) limit
      then dfs_calls net limit (node neighbor) (insert (node neighbor) visited)
             (newTime_of totalTime neighbor) m (c + 1) (node neighbor # stack)
           @ dfs_loop_calls net limit rest visited totalTime
               (fst (dfs net limit (node neighbor) (insert (node neighbor) visited)
                     (newTime_of totalTime neighbor) m (c + 1))) c stack
      else dfs_loop_calls net limit rest visited totalTime m c stack)"
proof -
  obtain m2 where "dfs net limit (node neighbor) (insert (node neighbor) visited)
                     (newTime_of totalTime neighbor) m (c + 1)
                   = (m2, insert (node neighbor) visited, net)"
    using dfs_frame(1)[of net limit "node neighbor" "insert (node neighbor) visited"
                          "newTime_of totalTime neighbor" m "c + 1"]
    by (metis prod.collapse)
  then show ?thesis by (simp add: Let_def)
qed

lemma dfs_induct [case_names dfs Nil Cons]:
  assumes "\<And>net limit current visited totalTime m c.
             Q net limit (neighbors_of net current) visited totalTime (max m c) c
             \<Longrightarrow> P net limit current visited totalTime m c"
    and "\<And>net limit visited totalTime m c. Q net limit [] visited totalTime m c"
    and "\<And>net limit neighbor rest visited totalTime m c.
           (node neighbor \<notin> visited \<Longrightarrow> js_less (newTime_of totalTime neighbor) limit \<Longrightarrow>
              P net limit (node neighbor) (insert (node neighbor) visited)
                (newTime_of totalTime neighbor) m (c + 1)) \<Longrightarrow>
           (node neighbor \<notin> visited \<Longrightarrow> js_less (newTime_of totalTime neighbor) limit \<Longrightarrow>
              Q net limit rest visited totalTime
                (fst (dfs net limit (node neighbor) (insert (node neighbor) visited)
                        (newTime_of totalTime neighbor) m (c + 1))) c) \<Longrightarrow>
           (\<not> (node neighbor \<notin> visited \<and> js_less (newTime_of totalTime neighbor) limit) \<Longrightarrow>
              Q net limit rest visited totalTime m c) \<Longrightarrow>
           Q net limit (neighbor # rest) visited totalTime m c"
  shows "P net limit current visited totalTime m c"
    and "Q net limit ns visited totalTime m c"
proof (induct net limit current visited totalTime m c and net limit ns visited totalTime m c
       rule: dfs_dfs_loop.induct)
  case (1 net limit current visited totalTime maxExperiencesCount experienceCount)
  then show ?case by (rule assms(1))
next
  case (2 net limit visited totalTime currentMaxExperiences experienceCount)
  show ?case by (rule assms(2))
next
  case (3 net limit neighbor rest visited totalTime m c)
  define n where "n = node neighbor"
  define nt where "nt = newTime_of totalTime neighbor"
  show ?case
  proof (rule assms(3))
    assume nv: "node neighbor \<notin> visited" and lt: "js_less (newTime_of totalTime neighbor) limit"
    from 3(1)[OF refl nv refl refl refl lt]
    show "P net limit (node neighbor) (insert (node neighbor) visited)
            (newTime_of totalTime neighbor) m (c + 1)" .
  next
    assume nv: "node neighbor \<notin> visited" and lt: "js_less (newTime_of totalTime neighbor) limit"
    obtain m2 where call: "dfs net limit (node neighbor) (insert (node neighbor) visited)
                     (newTime_of totalTime neighbor) m (c + 1)
                   = (m2, insert (node neighbor) visited, net)"
      using dfs_frame(1)[of net limit "node neighbor" "insert (node neighbor) visited"
                          "newTime_of totalTime neighbor" m "c + 1"]
      by (metis prod.collapse)
    with lt have xd: "(m2, insert (node neighbor) visited, net) =
        (if js_less (newTime_of totalTime neighbor) limit
         then dfs net limit (node neighbor) (insert (node neighbor) visited)
                (newTime_of totalTime neighbor) m (c + 1)
         else (m, insert (node neighbor) visited, net))" by simp
    from 3(2)[OF refl nv refl refl refl refl xd refl] nv call
    show "Q net limit rest visited totalTime
            (fst (dfs net limit (node neighbor) (insert (node neighbor) visited)
                    (newTime_of totalTime neighbor) m (c + 1))) c"
      by simp
  next
    assume ncond: "\<not> (node neighbor \<notin> visited \<and> js_less (newTime_of totalTime neighbor) limit)"
    show "Q net limit rest visited totalTime m c"
    proof (cases "node neighbor \<in> visited")
      case True
      then show ?thesis using 3(3)[OF refl] by simp
    next
      case False
      with ncond have nlt: "\<not> js_less (newTime_of totalTime neighbor) limit" by simp
      then have xd: "(m, insert (node neighbor) visited, net) =
        (if js_less (newTime_of totalTime neighbor) limit
         then dfs net limit (node neighbor) (insert (node neighbor) visited)
                (newTime_of totalTime neighbor) m (c + 1)
         else (m, insert (node neighbor) visited, net))" by simp
      from 3(2)[OF refl False refl refl refl refl xd refl] False
      show ?thesis by simp
    qed
  qed
qed

lemma distributeResource_loop_take:
  "canDescend net totalTime neighbor \<Longrightarrow>
   distributeResource_loop net (neighbor # rest) totalTime resourceCount =
     distributeResource_loop (released (snd (descend net totalTime neighbor resourceCount))) rest totalTime
       (fst (descend net totalTime neighbor resourceCount))"
  by (simp add: distributeResource_loop.simps(2) Let_def split: prod.splits)

lemma distributeResource_loop_skip:
  "\<not> canDescend net totalTime neighbor \<Longrightarrow>
   distributeResource_loop net (neighbor # rest) totalTime resourceCount =
     distributeResource_loop net rest totalTime resourceCount"
  by (auto simp: distributeResource_loop.simps(2) Let_def)

lemma distributeResource_loop_calls_take:
  "canDescend net totalTime neighbor \<Longrightarrow>
   distributeResource_loop_calls net (neighbor # rest) totalTime resourceCount depth =
     distributeResource_calls (net\<lparr>canoesAvailable := js_dec (canoesAvailable net)\<rparr>) (node neighbor)
       (newTime_of totalTime neighbor) resourceCount (depth + 1)
     @ distributeResource_loop_calls (released (snd (descend net totalTime neighbor resourceCount)))
         rest totalTime (fst (descend net totalTime neighbor resourceCount)) depth"
  by (simp add: distributeResource_loop_calls.simps(2) Let_def split: prod.splits)

lemma distributeResource_loop_calls_skip:
  "\<not> canDescend net totalTime neighbor \<Longrightarrow>
   distributeResource_loop_calls net (neighbor # rest) totalTime resourceCount depth =
     distributeResource_loop_calls net rest totalTime resourceCount depth"
  by (auto simp: distributeResource_loop_calls.simps(2) Let_def)

lemma distributeResource_induct [case_names distributeResource Nil Cons]:
  assumes "\<And>net current totalTime rc.
             (current \<notin> resourcesDistributed net \<Longrightarrow>
                Q (net\<lparr>resourcesDistributed := insert current (resourcesDistributed net)\<rparr>)
                  (neighbors_of net current) totalTime (rc + 1))
             \<Longrightarrow> P net current totalTime rc"
    and "\<And>net totalTime rc. Q net [] totalTime rc"
    and "\<And>net neighbor rest totalTime rc.
           (canDescend net totalTime neighbor \<Longrightarrow>
              P (net\<lparr>canoesAvailable := js_dec (canoesAvailable net)\<rparr>) (node neighbor)
                (newTime_of totalTime neighbor) rc) \<Longrightarrow>
           (canDescend net totalTime neighbor \<Longrightarrow>
              Q (released (snd (descend net totalTime neighbor rc))) rest totalTime
                (fst (descend net totalTime neighbor rc))) \<Longrightarrow>
           (\<not> canDescend net totalTime neighbor \<Longrightarrow> Q net rest totalTime rc) \<Longrightarrow>
           Q net (neighbor # rest) totalTime rc"
  shows "P net current totalTime rc"
    and "Q net ns totalTime rc"
proof (induct net current totalTime rc and net ns totalTime rc
       rule: distributeResource_distributeResource_loop.induct)
  case (1 net current totalTime resourceCount)
  show ?case
  proof (rule assms(1))
    assume "current \<notin> resourcesDistributed net"
    from 1[OF this refl refl]
    show "Q (net\<lparr>resourcesDistributed := insert current (resourcesDistributed net)\<rparr>)
            (neighbors_of net current) totalTime (resourceCount + 1)" by simp
  qed
next
  case (2 net totalTime resourceCount)
  show ?case by (rule assms(2))
next
  case (3 net neighbor rest totalTime rc)
  show ?case
  proof (rule assms(3))
    assume c: "canDescend net totalTime neighbor"
    from 3(1)[OF refl c refl refl]
    show "P (net\<lparr>canoesAvailable := js_dec (canoesAvailable net)\<rparr>) (node neighbor)
            (newTime_of totalTime neighbor) rc" .
  next
    assume c: "canDescend net totalTime neighbor"
    from 3(2)[OF refl c refl refl refl prod.collapse refl]
    show "Q (released (snd (descend net totalTime neighbor rc))) rest totalTime
            (fst (descend net totalTime neighbor rc))" .
  next
    assume c: "\<not> canDescend net totalTime neighbor"
    from 3(3)[OF refl c] show "Q net rest totalTime rc" .
  qed
qed

text \<open>From here on the defining equations are unfolded only where a proof asks for them.\<close>

declare dfs.simps [simp del] dfs_calls.simps [simp del]
declare dfs_loop.simps(2) [simp del] dfs_loop_calls.simps(2) [simp del]
declare distributeResource.simps [simp del] distributeResource_loop.simps(2) [simp del]
declare distributeResource_calls.simps [simp del] distributeResource_loop_calls.simps(2) [simp del]

lemma dfs_loop_take:
  "node neighbor \<notin> visited \<and> js_less (newTime_of totalTime neighbor) limit \<Longrightarrow>
   dfs_loop net limit (neighbor # rest) visited totalTime m c =
     dfs_loop net limit rest visited totalTime
       (fst (dfs net limit (node neighbor) (insert (node neighbor) visited)
               (newTime_of totalTime neighbor) m (c + 1))) c"
  by (simp add: dfs_loop_Cons)

lemma dfs_loop_skip:
  "\<not> (node neighbor \<notin> visited \<and> js_less (newTime_of totalTime neighbor) limit) \<Longrightarrow>
   dfs_loop net limit (neighbor # rest) visited totalTime m c =
     dfs_loop net limit rest visited totalTime m c"
  by (auto simp: dfs_loop_Cons)

lemma dfs_loop_calls_take:
  "node neighbor \<notin> visited \<and> js_less (newTime_of totalTime neighbor) limit \<Longrightarrow>
   dfs_loop_calls net limit (neighbor # rest) visited totalTime m c stack =
     dfs_calls net limit (node neighbor) (insert (node neighbor) visited)
       (newTime_of totalTime neighbor) m (c + 1) (node neighbor # stack)
     @ dfs_loop_calls net limit rest visited totalTime
         (fst (dfs net limit (node neighbor) (insert (node neighbor) visited)
                 (newTime_of totalTime neighbor) m (c + 1))) c stack"
  by (simp add: dfs_loop_calls_Cons)

lemma dfs_loop_calls_skip:
  "\<not> (node neighbor \<notin> visited \<and> js_less (newTime_of totalTime neighbor) limit) \<Longrightarrow>
   dfs_loop_calls net limit (neighbor # rest) visited totalTime m c stack =
     dfs_loop_calls net limit rest visited totalTime m c stack"
  by (auto simp: dfs_loop_calls_Cons)

section \<open>Properties of the search\<close>

lemma maxReachableCount_eq:
  "maxReachableCount net start limit = (fst (dfs net limit start {start} (JFin 0) 0 1), net)"
proof -
  obtain r where "dfs net limit start {start} (JFin 0) 0 1 = (r, {start}, net)"
    using dfs_frame(1)[of net limit start "{start}" "JFin 0" 0 1] by (metis prod.collapse)
  then show ?thesis by (simp add: maxReachableCount_def)
qed

lemma js_less_le_trans: "js_less a t1 \<Longrightarrow> js_le t1 t2 \<Longrightarrow> js_less a t2"
  by (cases a; cases t1; cases t2) simp_all

lemma js_less_irrefl: "\<not> js_less a a"
  by (cases a) simp_all

lemma dfs_ge:
  "max m c \<le> fst (dfs net limit current visited totalTime m c)"
  "m \<le> fst (dfs_loop net limit ns visited totalTime m c)"
proof (induct net limit current visited totalTime m c and net limit ns visited totalTime m c
       rule: dfs_induct)
  case (dfs net limit current visited totalTime m c)
  then show ?case by (simp add: dfs.simps)
next
  case (Nil net limit visited totalTime m c)
  show ?case by simp
next
  case (Cons net limit neighbor rest visited totalTime m c)
  show ?case
  proof (cases "node neighbor \<notin> visited \<and> js_less (newTime_of totalTime neighbor) limit")
    case True
    from Cons(1,2) True
    have "m \<le> fst (dfs net limit (node neighbor) (insert (node neighbor) visited)
                     (newTime_of totalTime neighbor) m (c + 1))"
      and "fst (dfs net limit (node neighbor) (insert (node neighbor) visited)
                     (newTime_of totalTime neighbor) m (c + 1))
           \<le> fst (dfs_loop net limit (neighbor # rest) visited totalTime m c)"
      by (simp_all add: dfs_loop_take[OF True])
    then show ?thesis by (rule order_trans)
  next
    case False
    with Cons(3) show ?thesis by (simp add: dfs_loop_skip[OF False])
  qed
qed

lemma dfs_mono:
  "js_le t1 t2 \<Longrightarrow> m1 \<le> m2 \<Longrightarrow>
     fst (dfs net t1 current visited totalTime m1 c) \<le> fst (dfs net t2 current visited totalTime m2 c)"
  "js_le t1 t2 \<Longrightarrow> m1 \<le> m2 \<Longrightarrow>
     fst (dfs_loop net t1 ns visited totalTime m1 c) \<le> fst (dfs_loop net t2 ns visited totalTime m2 c)"
proof (induct net t1 current visited totalTime m1 c and net t1 ns visited totalTime m1 c
       arbitrary: m2 and m2 rule: dfs_induct)
  case (dfs net limit current visited totalTime m c)
  from dfs(1)[OF dfs(2), of "max m2 c"] dfs(3) show ?case by (simp add: dfs.simps)
next
  case (Nil net limit visited totalTime m c)
  then show ?case by simp
next
  case (Cons net limit neighbor rest visited totalTime m c)
  let ?n = "node neighbor" and ?nt = "newTime_of totalTime neighbor"
  let ?r1 = "fst (dfs net limit ?n (insert ?n visited) ?nt m (c + 1))"
  let ?r2 = "fst (dfs net t2 ?n (insert ?n visited) ?nt m2 (c + 1))"
  show ?case
  proof (cases "?n \<notin> visited \<and> js_less ?nt limit")
    case True
    then have c2: "?n \<notin> visited \<and> js_less ?nt t2"
      using Cons(4) by (auto intro: js_less_le_trans)
    from True Cons(1)[OF _ _ Cons(4,5)] have "?r1 \<le> ?r2" by simp
    from Cons(2)[OF _ _ Cons(4) this] True
    have "fst (dfs_loop net limit rest visited totalTime ?r1 c)
            \<le> fst (dfs_loop net t2 rest visited totalTime ?r2 c)" by simp
    then show ?thesis by (simp only: dfs_loop_take[OF True] dfs_loop_take[OF c2])
  next
    case False
    show ?thesis
    proof (cases "?n \<notin> visited \<and> js_less ?nt t2")
      case c2: True
      have "m2 \<le> ?r2" using dfs_ge(1)[of m2 "c + 1" net t2 ?n "insert ?n visited" ?nt] by simp
      with Cons(5) have "m \<le> ?r2" by simp
      from Cons(3)[OF False Cons(4) this] show ?thesis
        by (simp only: dfs_loop_skip[OF False] dfs_loop_take[OF c2])
    next
      case c2: False
      from Cons(3)[OF False Cons(4,5)] show ?thesis
        by (simp only: dfs_loop_skip[OF False] dfs_loop_skip[OF c2])
    qed
  qed
qed

lemma dfs_calls_invariant:
  "visited = set stack \<Longrightarrow> distinct stack \<Longrightarrow> c = length stack \<Longrightarrow> stack \<noteq> [] \<Longrightarrow>
   \<forall>(stk, vis, tt, cnt) \<in> set (dfs_calls net limit current visited totalTime m c stack).
      vis = set stk \<and> distinct stk \<and> cnt = length stk \<and> last stk = last stack"
  "visited = set stack \<Longrightarrow> distinct stack \<Longrightarrow> c = length stack \<Longrightarrow> stack \<noteq> [] \<Longrightarrow>
   \<forall>(stk, vis, tt, cnt) \<in> set (dfs_loop_calls net limit ns visited totalTime m c stack).
      vis = set stk \<and> distinct stk \<and> cnt = length stk \<and> last stk = last stack"
proof (induct net limit current visited totalTime m c and net limit ns visited totalTime m c
       arbitrary: stack and stack rule: dfs_induct)
  case (dfs net limit current visited totalTime m c)
  from dfs(1)[OF dfs(2-5)] dfs(2-5) show ?case by (simp add: dfs_calls.simps)
next
  case (Nil net limit visited totalTime m c)
  show ?case by simp
next
  case (Cons net limit neighbor rest visited totalTime m c)
  show ?case
  proof (cases "node neighbor \<notin> visited \<and> js_less (newTime_of totalTime neighbor) limit")
    case True
    have a: "insert (node neighbor) visited = set (node neighbor # stack)"
      and b: "distinct (node neighbor # stack)"
      and c: "c + 1 = length (node neighbor # stack)"
      using True Cons(4-6) by auto
    from Cons(1)[OF _ _ a b c] True
    have 1: "\<forall>(stk, vis, tt, cnt) \<in> set (dfs_calls net limit (node neighbor)
                (insert (node neighbor) visited) (newTime_of totalTime neighbor) m (c + 1)
                (node neighbor # stack)).
              vis = set stk \<and> distinct stk \<and> cnt = length stk \<and> last stk = last stack"
      using Cons(7) by simp
    from Cons(2)[OF _ _ Cons(4-7)] True
    have 2: "\<forall>(stk, vis, tt, cnt) \<in> set (dfs_loop_calls net limit rest visited totalTime
                (fst (dfs net limit (node neighbor) (insert (node neighbor) visited)
                       (newTime_of totalTime neighbor) m (c + 1))) c stack).
              vis = set stk \<and> distinct stk \<and> cnt = length stk \<and> last stk = last stack"
      by simp
    from 1 2 show ?thesis by (auto simp: dfs_loop_calls_take[OF True])
  next
    case False
    from Cons(3)[OF False Cons(4-7)] show ?thesis by (simp only: dfs_loop_calls_skip[OF False])
  qed
qed

lemma dfs_result_is_max_of_calls:
  "fst (dfs net limit current visited totalTime m c)
     = fold max (map (\<lambda>(stk, vis, tt, cnt). cnt) (dfs_calls net limit current visited totalTime m c stack)) m"
  "fst (dfs_loop net limit ns visited totalTime m c)
     = fold max (map (\<lambda>(stk, vis, tt, cnt). cnt) (dfs_loop_calls net limit ns visited totalTime m c stack)) m"
proof (induct net limit current visited totalTime m c and net limit ns visited totalTime m c
       arbitrary: stack and stack rule: dfs_induct)
  case (dfs net limit current visited totalTime m c)
  then show ?case by (simp add: dfs.simps dfs_calls.simps max.commute)
next
  case (Nil net limit visited totalTime m c)
  show ?case by simp
next
  case (Cons net limit neighbor rest visited totalTime m c)
  show ?case
  proof (cases "node neighbor \<notin> visited \<and> js_less (newTime_of totalTime neighbor) limit")
    case True
    with Cons(1)[of "node neighbor # stack"] Cons(2)[of stack] show ?thesis
      by (simp add: dfs_loop_calls_take[OF True] dfs_loop_take[OF True])
  next
    case False
    with Cons(3)[of stack] show ?thesis
      by (simp add: dfs_loop_calls_skip[OF False] dfs_loop_skip[OF False])
  qed
qed

section \<open>Properties of the distribution\<close>

lemma distributeResource_frame:
  "graph (snd (distributeResource net current totalTime rc)) = graph net \<and>
   populations (snd (distributeResource net current totalTime rc)) = populations net \<and>
   lastVisit (snd (distributeResource net current totalTime rc)) = lastVisit net"
  "graph (snd (distributeResource_loop net ns totalTime rc)) = graph net \<and>
   populations (snd (distributeResource_loop net ns totalTime rc)) = populations net \<and>
   lastVisit (snd (distributeResource_loop net ns totalTime rc)) = lastVisit net"
proof (induct net current totalTime rc and net ns totalTime rc rule: distributeResource_induct)
  case (distributeResource net current totalTime rc)
  then show ?case by (simp add: distributeResource.simps Let_def)
next
  case (Nil net totalTime rc)
  show ?case by simp
next
  case (Cons net neighbor rest totalTime rc)
  show ?case
  proof (cases "canDescend net totalTime neighbor")
    case True
    from Cons(1)[OF True] Cons(2)[OF True] show ?thesis
      by (simp add: distributeResource_loop_take[OF True])
  next
    case False
    from Cons(3)[OF False] show ?thesis
      by (simp add: distributeResource_loop_skip[OF False])
  qed
qed

lemma js_ulp_small: "a < 2 ^ 53 \<Longrightarrow> js_ulp a = 1"
  by (simp add: js_ulp.simps)

lemma js_round_int_exact: "\<bar>n\<bar> \<le> 2 ^ 53 \<Longrightarrow> js_round_int n = n"
proof (cases "\<bar>n\<bar> < 2 ^ 53")
  case True
  then have "nat \<bar>n\<bar> < 2 ^ 53" by simp
  then have "js_ulp (nat \<bar>n\<bar>) = 1" by (rule js_ulp_small)
  then show ?thesis by (simp add: js_round_int_def Let_def mult_sgn_abs)
next
  case False
  assume "\<bar>n\<bar> \<le> 2 ^ 53"
  with False have a: "nat \<bar>n\<bar> = 9007199254740992" by simp
  have u: "js_ulp 9007199254740992 = 2"
    by (subst js_ulp.simps) (simp add: js_ulp_small)
  from a have "\<bar>n\<bar> = 9007199254740992" by linarith
  with mult_sgn_abs[of n] have "sgn n * 9007199254740992 = n" by simp
  then show ?thesis by (simp add: js_round_int_def Let_def a u)
qed

lemma js_dec_exact: "0 < k \<Longrightarrow> k \<le> 2 ^ 53 \<Longrightarrow> js_dec k = k - 1"
  by (simp add: js_dec_def js_round_int_exact)

lemma js_inc_exact: "0 \<le> k \<Longrightarrow> k < 2 ^ 53 \<Longrightarrow> js_inc k = k + 1"
  by (simp add: js_inc_def js_round_int_exact)

lemma distributeResource_canoes:
  "canoesAvailable net \<le> 2 ^ 53 \<Longrightarrow>
     canoesAvailable (snd (distributeResource net current totalTime rc)) = canoesAvailable net"
  "canoesAvailable net \<le> 2 ^ 53 \<Longrightarrow>
     canoesAvailable (snd (distributeResource_loop net ns totalTime rc)) = canoesAvailable net"
proof (induct net current totalTime rc and net ns totalTime rc rule: distributeResource_induct)
  case (distributeResource net current totalTime rc)
  then show ?case by (simp add: distributeResource.simps Let_def)
next
  case (Nil net totalTime rc)
  show ?case by simp
next
  case (Cons net neighbor rest totalTime rc)
  show ?case
  proof (cases "canDescend net totalTime neighbor")
    case True
    then have pos: "0 < canoesAvailable net" by simp
    have dec: "js_dec (canoesAvailable net) = canoesAvailable net - 1"
      using pos Cons(4) by (rule js_dec_exact)
    have "canoesAvailable (snd (descend net totalTime neighbor rc)) = canoesAvailable net - 1"
      using Cons(1)[OF True] pos Cons(4) by (simp add: dec)
    then have restored:
      "canoesAvailable (released (snd (descend net totalTime neighbor rc))) = canoesAvailable net"
      using pos Cons(4) by (simp add: js_inc_exact)
    from Cons(2)[OF True] restored Cons(4) show ?thesis
      by (simp add: distributeResource_loop_take[OF True])
  next
    case False
    from Cons(3)[OF False Cons(4)] show ?thesis
      by (simp add: distributeResource_loop_skip[OF False])
  qed
qed

lemma distributeResource_bounded:
  "resourcesDistributed (snd (distributeResource net current totalTime rc))
     \<subseteq> resourcesDistributed net \<union> graph_nodes net \<union> {current}"
  "resourcesDistributed (snd (distributeResource_loop net ns totalTime rc))
     \<subseteq> resourcesDistributed net \<union> graph_nodes net \<union> node ` set ns"
proof (induct net current totalTime rc and net ns totalTime rc rule: distributeResource_induct)
  case (distributeResource net current totalTime rc)
  then show ?case
    using neighbors_of_nodes[of net current]
    by (auto simp: distributeResource.simps Let_def)
next
  case (Nil net totalTime rc)
  show ?case by simp
next
  case (Cons net neighbor rest totalTime rc)
  show ?case
  proof (cases "canDescend net totalTime neighbor")
    case True
    have g: "graph_nodes (snd (descend net totalTime neighbor rc)) = graph_nodes net"
      using distributeResource_frame(1)[of "net\<lparr>canoesAvailable := js_dec (canoesAvailable net)\<rparr>"]
      by (simp add: graph_nodes_def)
    from Cons(1)[OF True] Cons(2)[OF True] show ?thesis
      by (auto simp: distributeResource_loop_take[OF True] g)
  next
    case False
    from Cons(3)[OF False] show ?thesis
      by (auto simp: distributeResource_loop_skip[OF False])
  qed
qed

lemma distributeResource_count:
  "fst (distributeResource net current totalTime rc)
     = rc + card (resourcesDistributed (snd (distributeResource net current totalTime rc))
                  - resourcesDistributed net)"
  "fst (distributeResource_loop net ns totalTime rc)
     = rc + card (resourcesDistributed (snd (distributeResource_loop net ns totalTime rc))
                  - resourcesDistributed net)"
proof (induct net current totalTime rc and net ns totalTime rc rule: distributeResource_induct)
  case (distributeResource net current totalTime rc)
  show ?case
  proof (cases "current \<in> resourcesDistributed net")
    case True
    then show ?thesis by (simp add: distributeResource.simps)
  next
    case False
    define net1 where "net1 = net\<lparr>resourcesDistributed := insert current (resourcesDistributed net)\<rparr>"
    define D' where "D' = resourcesDistributed
                            (snd (distributeResource_loop net1 (neighbors_of net current) totalTime (rc + 1)))"
    have res: "distributeResource net current totalTime rc
                 = distributeResource_loop net1 (neighbors_of net current) totalTime (rc + 1)"
      using False by (simp add: distributeResource.simps Let_def net1_def)
    have sub: "insert current (resourcesDistributed net) \<subseteq> D'"
      using distributeResource_grows(2)[of net1 "neighbors_of net current" totalTime "rc + 1"]
      by (simp add: D'_def net1_def)
    have fin: "finite (D' - resourcesDistributed net)"
    proof (rule finite_subset)
      show "D' - resourcesDistributed net \<subseteq> graph_nodes net \<union> {current}"
        using distributeResource_bounded(1)[of net current totalTime rc]
        unfolding res D'_def by auto
      show "finite (graph_nodes net \<union> {current})" by (simp add: finite_graph_nodes)
    qed
    have "D' - resourcesDistributed net = insert current (D' - insert current (resourcesDistributed net))"
      using sub False by auto
    moreover have "current \<notin> D' - insert current (resourcesDistributed net)" by simp
    ultimately have "card (D' - resourcesDistributed net)
                       = Suc (card (D' - insert current (resourcesDistributed net)))"
      using fin by (metis card_insert_disjoint finite_insert)
    with distributeResource[OF False] show ?thesis
      by (simp add: res D'_def net1_def)
  qed
next
  case (Nil net totalTime rc)
  show ?case by simp
next
  case (Cons net neighbor rest totalTime rc)
  show ?case
  proof (cases "canDescend net totalTime neighbor")
    case True
    define r where "r = descend net totalTime neighbor rc"
    define D where "D = resourcesDistributed net"
    define D1 where "D1 = resourcesDistributed (snd r)"
    define D2 where "D2 = resourcesDistributed
                            (snd (distributeResource_loop (released (snd r)) rest totalTime (fst r)))"
    have s1: "D \<subseteq> D1"
      using distributeResource_grows(1)[of "net\<lparr>canoesAvailable := js_dec (canoesAvailable net)\<rparr>"
               "node neighbor" "newTime_of totalTime neighbor" rc]
      by (simp add: D_def D1_def r_def)
    have s2: "D1 \<subseteq> D2"
      using distributeResource_grows(2)[of "released (snd r)" rest totalTime "fst r"]
      by (simp add: D1_def D2_def)
    have g: "graph_nodes (snd r) = graph_nodes net"
      using distributeResource_frame(1)[of "net\<lparr>canoesAvailable := js_dec (canoesAvailable net)\<rparr>"]
      by (simp add: graph_nodes_def r_def)
    have b1: "D1 \<subseteq> D \<union> graph_nodes net \<union> {node neighbor}"
      using distributeResource_bounded(1)[of "net\<lparr>canoesAvailable := js_dec (canoesAvailable net)\<rparr>"
               "node neighbor" "newTime_of totalTime neighbor" rc]
      by (simp add: D_def D1_def r_def)
    have b2: "D2 \<subseteq> D1 \<union> graph_nodes net \<union> node ` set rest"
      using distributeResource_bounded(2)[of "released (snd r)" rest totalTime "fst r"]
      by (simp add: D1_def D2_def g)
    have fin: "finite (D2 - D)"
      by (rule finite_subset[of _ "graph_nodes net \<union> {node neighbor} \<union> node ` set rest"])
         (use b1 b2 in \<open>auto simp: finite_graph_nodes\<close>)
    have "D2 - D = (D1 - D) \<union> (D2 - D1)" "(D1 - D) \<inter> (D2 - D1) = {}"
      using s1 s2 by auto
    moreover have "finite (D1 - D)" "finite (D2 - D1)"
      using s1 s2 by (auto intro: finite_subset[OF _ fin])
    ultimately have c: "card (D2 - D) = card (D1 - D) + card (D2 - D1)"
      by (simp add: card_Un_disjoint)
    from Cons(1)[OF True] have "fst r = rc + card (D1 - D)"
      by (simp add: r_def D1_def D_def)
    moreover from Cons(2)[OF True]
    have "fst (distributeResource_loop (released (snd r)) rest totalTime (fst r))
            = fst r + card (D2 - D1)"
      by (simp add: r_def D2_def D1_def)
    ultimately have "fst (distributeResource_loop (released (snd r)) rest totalTime (fst r))
                       = rc + card (D2 - D)"
      using c by simp
    then show ?thesis
      unfolding distributeResource_loop_take[OF True] r_def[symmetric] D2_def[symmetric]
                D_def[symmetric] .
  next
    case False
    from Cons(3)[OF False] show ?thesis
      by (simp add: distributeResource_loop_skip[OF False])
  qed
qed

lemma distributeResource_calls_invariant:
  "canoesAvailable net \<le> 2 ^ 53 \<Longrightarrow>
   \<forall>(d, k) \<in> set (distributeResource_calls net current totalTime rc depth).
      depth \<le> d \<and> k = canoesAvailable net - int (d - depth)"
  "canoesAvailable net \<le> 2 ^ 53 \<Longrightarrow>
   \<forall>(d, k) \<in> set (distributeResource_loop_calls net ns totalTime rc depth).
      depth \<le> d \<and> k = canoesAvailable net - int (d - depth)"
proof (induct net current totalTime rc and net ns totalTime rc
       arbitrary: depth and depth rule: distributeResource_induct)
  case (distributeResource net current totalTime rc)
  show ?case
  proof (cases "current \<in> resourcesDistributed net")
    case True
    then show ?thesis by (simp add: distributeResource_calls.simps)
  next
    case False
    from distributeResource(1)[OF False, of depth] distributeResource(2) False show ?thesis
      by (simp add: distributeResource_calls.simps Let_def)
  qed
next
  case (Nil net totalTime rc)
  show ?case by simp
next
  case (Cons net neighbor rest totalTime rc)
  show ?case
  proof (cases "canDescend net totalTime neighbor")
    case True
    then have pos: "0 < canoesAvailable net" by simp
    have dec: "js_dec (canoesAvailable net) = canoesAvailable net - 1"
      using pos Cons(4) by (rule js_dec_exact)
    have restored:
      "canoesAvailable (released (snd (descend net totalTime neighbor rc))) = canoesAvailable net"
      using distributeResource_canoes(1)[of "net\<lparr>canoesAvailable := js_dec (canoesAvailable net)\<rparr>"
               "node neighbor" "newTime_of totalTime neighbor" rc] pos Cons(4)
      by (simp add: dec js_inc_exact)
    from Cons(1)[OF True, of "depth + 1"] pos Cons(4)
    have 1: "\<forall>(d, k) \<in> set (distributeResource_calls
                (net\<lparr>canoesAvailable := js_dec (canoesAvailable net)\<rparr>) (node neighbor)
                (newTime_of totalTime neighbor) rc (depth + 1)).
              depth \<le> d \<and> k = canoesAvailable net - int (d - depth)"
      by (auto simp: dec of_nat_diff)
    from Cons(2)[OF True, of depth] restored Cons(4)
    have 2: "\<forall>(d, k) \<in> set (distributeResource_loop_calls
                (released (snd (descend net totalTime neighbor rc))) rest totalTime
                (fst (descend net totalTime neighbor rc)) depth).
              depth \<le> d \<and> k = canoesAvailable net - int (d - depth)"
      by simp
    from 1 2 show ?thesis
      by (auto simp: distributeResource_loop_calls_take[OF True])
  next
    case False
    from Cons(3)[OF False Cons(4), of depth] show ?thesis
      by (simp only: distributeResource_loop_calls_skip[OF False])
  qed
qed

lemma distributeResource_loop_no_canoes:
  "canoesAvailable net \<le> 0 \<Longrightarrow> distributeResource_loop net ns totalTime rc = (rc, net)"
proof (induction ns)
  case Nil
  show ?case by simp
next
  case (Cons neighbor rest)
  from Cons.prems have "\<not> canDescend net totalTime neighbor" by simp
  from distributeResource_loop_skip[OF this] Cons show ?case by simp
qed

section \<open>A cycle under knowledge sharing\<close>

text \<open>
  On two islands that point at each other, with interval 0 and a clock that advances at
  every reading, the queue always holds exactly one of the two islands, and the other one
  is either not yet in \<open>visited\<close> or was stamped at an earlier reading. So the island
  being processed always queues the other one.
\<close>

lemma js_or_zero_JFin [simp]: "js_or_zero (Some (JFin x)) = JFin x"
  by (simp add: js_or_zero_def)

lemma js_sub_JFin [simp]: "js_sub (JFin x) (JFin y) = JFin (x - y)"
  by (simp add: js_sub_def)

lemma shareKnowledge_neighbors_single_cycle:
  assumes mono: "strict_mono clock"
    and nbs: "map node ns = [y]"
    and other: "y \<notin> visited \<or> (\<exists>j<reads. lastVisit net y = Some (JFin (of_int (clock j))))"
  shows "\<exists>visited' reads'. reads \<le> reads' \<and>
           shareKnowledge_neighbors clock (JFin 0) net ns visited [] reads = (visited', [y], reads')"
proof -
  from nbs obtain nb where ns: "ns = [nb]" and nb: "node nb = y" by auto
  show ?thesis
  proof (cases "y \<in> visited")
    case False
    then show ?thesis by (simp add: ns nb)
  next
    case True
    with other obtain j where j: "j < reads" "lastVisit net y = Some (JFin (of_int (clock j)))"
      by auto
    from mono j(1) have "clock j < clock reads" by (simp add: strict_mono_def)
    with True j(2) show ?thesis by (simp add: ns nb)
  qed
qed

lemma shareKnowledge_loop_cycle_never_returns:
  assumes mono: "strict_mono clock"
    and ne: "a \<noteq> []" "b \<noteq> []" "a \<noteq> b"
    and ga: "map node (neighbors_of net0 a) = [b]"
    and gb: "map node (neighbors_of net0 b) = [a]"
  shows "shareKnowledge_loop clock' interval net visited queue reads = Some result \<Longrightarrow>
         clock' = clock \<and> interval = JFin 0 \<and> graph net = graph net0 \<and>
         (\<exists>x y. (x = a \<and> y = b \<or> x = b \<and> y = a) \<and> queue = [x] \<and>
            (y \<notin> visited \<or> (\<exists>j<reads. lastVisit net y = Some (JFin (of_int (clock j))))))
         \<longrightarrow> False"
proof (induct rule: shareKnowledge_loop.raw_induct[rotated, consumes 1])
  case (1 loop clock' interval net visited queue reads result)
  show ?case
  proof
    assume inv: "clock' = clock \<and> interval = JFin 0 \<and> graph net = graph net0 \<and>
         (\<exists>x y. (x = a \<and> y = b \<or> x = b \<and> y = a) \<and> queue = [x] \<and>
            (y \<notin> visited \<or> (\<exists>j<reads. lastVisit net y = Some (JFin (of_int (clock j))))))"
    then obtain x y where xy: "x = a \<and> y = b \<or> x = b \<and> y = a" and q: "queue = [x]"
      and other: "y \<notin> visited \<or> (\<exists>j<reads. lastVisit net y = Some (JFin (of_int (clock j))))"
      by blast
    from inv have c: "clock' = clock" and i: "interval = JFin 0" and g: "graph net = graph net0"
      by simp_all
    define net1 where
      "net1 = net\<lparr>lastVisit := (lastVisit net)(x \<mapsto> JFin (of_int (clock reads)))\<rparr>"
    from xy ne have xne: "x \<noteq> []" and xy_ne: "x \<noteq> y" by auto
    from xy ga gb g have nbs: "map node (neighbors_of net1 x) = [y]"
      by (auto simp: net1_def neighbors_of_cong[OF g])
    from other xy_ne
    have other1: "y \<notin> visited \<or> (\<exists>j<reads + 1. lastVisit net1 y = Some (JFin (of_int (clock j))))"
      by (auto simp: net1_def intro: less_SucI)
    from shareKnowledge_neighbors_single_cycle[OF mono nbs other1]
    obtain visited2 reads2 where r2: "reads + 1 \<le> reads2"
      and step: "shareKnowledge_neighbors clock (JFin 0) net1 (neighbors_of net1 x) visited [] (reads + 1)
                   = (visited2, [y], reads2)"
      by blast
    from 1(2) step have call: "loop clock (JFin 0) net1 visited2 [y] reads2 = Some result"
      by (simp add: q xne c i net1_def[symmetric])
    have "lastVisit net1 x = Some (JFin (of_int (clock reads)))" by (simp add: net1_def)
    with r2 have "\<exists>j<reads2. lastVisit net1 x = Some (JFin (of_int (clock j)))"
      by (intro exI[of _ reads]) simp
    with xy g have "clock = clock \<and> JFin 0 = JFin 0 \<and> graph net1 = graph net0 \<and>
         (\<exists>x' y'. (x' = a \<and> y' = b \<or> x' = b \<and> y' = a) \<and> [y] = [x'] \<and>
            (y' \<notin> visited2 \<or> (\<exists>j<reads2. lastVisit net1 y' = Some (JFin (of_int (clock j))))))"
      by (auto simp: net1_def)
    with 1(1)[OF call] show False by blast
  qed
qed

section \<open>The example networks, evaluated\<close>

lemma scenario_neighbors:
  "neighbors_of scenario_network ''A'' = [edge ''B'' 10 5, edge ''C'' 15 8]"
  "neighbors_of scenario_network ''B'' = [edge ''D'' 20 12]"
  "neighbors_of scenario_network ''C'' = []"
  "neighbors_of scenario_network ''D'' = []"
  by (simp_all add: scenario_network_def neighbors_of_def addIslandOrExperience_def
        new_IslandNetwork_def Let_def)

lemma scenario_fields:
  "canoesAvailable scenario_network = 3"
  by (simp add: scenario_network_def addIslandOrExperience_def new_IslandNetwork_def Let_def)

lemma cycle_neighbors:
  "neighbors_of cycle_network ''A'' = [edge ''B'' 1 1]"
  "neighbors_of cycle_network ''B'' = [edge ''A'' 1 1]"
  by (simp_all add: cycle_network_def neighbors_of_def addIslandOrExperience_def
        new_IslandNetwork_def Let_def)

lemma diamond_neighbors:
  "neighbors_of diamond_network ''A'' = [edge ''B'' 10 5, edge ''C'' 15 8]"
  "neighbors_of diamond_network ''B'' = [edge ''D'' 20 12]"
  "neighbors_of diamond_network ''C'' = [edge ''D'' 10 7]"
  "neighbors_of diamond_network ''D'' = []"
  by (simp_all add: diamond_network_def neighbors_of_def addIslandOrExperience_def
        new_IslandNetwork_def Let_def)

lemma diamond_fields:
  "canoesAvailable diamond_network = 3"
  by (simp add: diamond_network_def addIslandOrExperience_def new_IslandNetwork_def Let_def)

lemma single_edge_neighbors:
  "neighbors_of (single_edge_network cost) ''A'' = [edge ''B'' cost 0]"
  "neighbors_of (single_edge_network cost) ''B'' = []"
  by (simp_all add: single_edge_network_def neighbors_of_def addIslandOrExperience_def
        new_IslandNetwork_def Let_def)

lemma single_edge_fields:
  "canoesAvailable (single_edge_network cost) = 0"
  by (simp add: single_edge_network_def addIslandOrExperience_def new_IslandNetwork_def Let_def)

lemma registered_fields:
  "populations (registered_network p) ''A'' = Some (JFin p)"
  "lastVisit (registered_network p) ''A'' = Some JNegInf"
  by (simp_all add: registered_network_def addIslandOrExperience_def new_IslandNetwork_def Let_def)

lemmas dfs_eval =
  maxReachableCount_eq maxReachableCount_calls_def dfs.simps dfs_loop_Cons
  dfs_calls.simps dfs_loop_calls_Cons edge_def Let_def

lemmas distribute_eval =
  distributeFrom_def distributeFrom_calls_def
  distributeResource.simps distributeResource_loop.simps
  distributeResource_calls.simps distributeResource_loop_calls.simps edge_def Let_def
  js_dec_exact js_inc_exact

lemma test_neighbors:
  "neighbors_of test_network ''experience1'' = [edge ''experience2'' 10 5, edge ''experience3'' 15 8]"
  "neighbors_of test_network ''experience2'' = [edge ''experience4'' 20 12]"
  "neighbors_of test_network ''experience3'' = [edge ''experience5'' 10 7]"
  "neighbors_of test_network ''experience4'' = []"
  "neighbors_of test_network ''experience5'' = []"
  by (simp_all add: test_network_def neighbors_of_def addIslandOrExperience_def
        new_IslandNetwork_def Let_def)

text \<open>On the test data of the source files the search finds 3 experiences as well.\<close>

lemma findMaxExperiences_test_data:
  "fst (findMaxExperiences test_network ''experience1'') = 3"
  by (simp add: findMaxExperiences_def dfs_eval test_neighbors)

lemma distributeFrom_scenario:
  "fst (distributeFrom scenario_network ''A'') = 4"
  by (simp add: distribute_eval scenario_neighbors scenario_fields)

text \<open>
  With a clock that stands still the same cycle is left after two rounds: whether the
  loop ends depends on the clock.
\<close>

lemma shareKnowledge_cycle_frozen_clock_returns:
  "\<exists>net'. shareKnowledge (\<lambda>k. 0) cycle_network ''A'' (JFin 0) = Some net'"
  unfolding shareKnowledge_def Let_def
  apply (subst shareKnowledge_loop.simps)
  apply (simp add: cycle_neighbors edge_def Let_def)
  apply (subst shareKnowledge_loop.simps)
  apply (simp add: cycle_neighbors edge_def Let_def)
  apply (subst shareKnowledge_loop.simps)
  apply simp
  done

section \<open>The claims\<close>

text \<open>
  C1. On the graph with the edges A to B (total cost 15), A to C (total cost 23) and
  B to D (total cost 32), with the bound 100 and started at A, \<open>findMaxExperiences\<close>
  returns exactly 3.
\<close>

theorem findMaxExperiences_scenario: "fst (findMaxExperiences scenario_network ''A'') = 3"
  by (simp add: findMaxExperiences_def dfs_eval scenario_neighbors)

text \<open>
  C2. Monotonicity in the bound: for every network, every start node and all bounds
  \<open>t1 <= t2\<close>, the count found with the bound \<open>t2\<close> is at least the count found with
  \<open>t1\<close>. The source fixes the bound to 100; the statement is about the search with the
  bound as a parameter, of which the source is the instance at 100.
\<close>

theorem maxReachableCount_mono:
  "js_le t1 t2 \<Longrightarrow> fst (maxReachableCount net start t1) \<le> fst (maxReachableCount net start t2)"
proof -
  assume le: "js_le t1 t2"
  have "fst (dfs net t1 start {start} (JFin 0) 0 1) \<le> fst (dfs net t2 start {start} (JFin 0) 0 1)"
    by (rule dfs_mono(1)[OF le]) simp
  then show ?thesis by (simp add: maxReachableCount_eq)
qed

theorem maxReachableCount_mono_witness:
  "js_le (JFin 20) (JFin 100) \<and>
   fst (maxReachableCount scenario_network ''A'' (JFin 20)) = 2 \<and>
   fst (maxReachableCount scenario_network ''A'' (JFin 100)) = 3 \<and>
   fst (maxReachableCount scenario_network ''A'' (JFin 20))
     \<le> fst (maxReachableCount scenario_network ''A'' (JFin 100))"
  using maxReachableCount_mono[of "JFin 20" "JFin 100" scenario_network "''A''"]
  by (simp add: dfs_eval scenario_neighbors)

text \<open>
  C3. The comparison with the bound is strict. For an edge whose target is not on the
  current path: when the cumulative cost of the extension equals the bound exactly, or more
  generally is not strictly below it, the loop goes on as if the edge were absent, with the
  same result and without any call of \<open>dfs\<close>; when the cost is strictly below the bound,
  the first call the loop makes is the descent into the target, and the loop goes on with
  the count that the descent returns.
\<close>

theorem dfs_threshold_strict:
  "node neighbor \<notin> visited \<Longrightarrow>
   (newTime_of totalTime neighbor = limit \<longrightarrow>
      dfs_loop net limit (neighbor # rest) visited totalTime m c
        = dfs_loop net limit rest visited totalTime m c \<and>
      dfs_loop_calls net limit (neighbor # rest) visited totalTime m c stack
        = dfs_loop_calls net limit rest visited totalTime m c stack) \<and>
   (\<not> js_less (newTime_of totalTime neighbor) limit \<longrightarrow>
      dfs_loop net limit (neighbor # rest) visited totalTime m c
        = dfs_loop net limit rest visited totalTime m c \<and>
      dfs_loop_calls net limit (neighbor # rest) visited totalTime m c stack
        = dfs_loop_calls net limit rest visited totalTime m c stack) \<and>
   (js_less (newTime_of totalTime neighbor) limit \<longrightarrow>
      hd (dfs_loop_calls net limit (neighbor # rest) visited totalTime m c stack)
        = (node neighbor # stack, insert (node neighbor) visited,
           newTime_of totalTime neighbor, c + 1) \<and>
      dfs_loop net limit (neighbor # rest) visited totalTime m c
        = dfs_loop net limit rest visited totalTime
            (fst (dfs net limit (node neighbor) (insert (node neighbor) visited)
                    (newTime_of totalTime neighbor) m (c + 1))) c)"
proof (intro conjI impI)
  assume "newTime_of totalTime neighbor = limit"
  then have n: "\<not> (node neighbor \<notin> visited \<and> js_less (newTime_of totalTime neighbor) limit)"
    by (simp add: js_less_irrefl)
  show "dfs_loop net limit (neighbor # rest) visited totalTime m c
        = dfs_loop net limit rest visited totalTime m c"
    by (rule dfs_loop_skip[OF n])
  show "dfs_loop_calls net limit (neighbor # rest) visited totalTime m c stack
        = dfs_loop_calls net limit rest visited totalTime m c stack"
    by (rule dfs_loop_calls_skip[OF n])
next
  assume "\<not> js_less (newTime_of totalTime neighbor) limit"
  then have n: "\<not> (node neighbor \<notin> visited \<and> js_less (newTime_of totalTime neighbor) limit)"
    by simp
  show "dfs_loop net limit (neighbor # rest) visited totalTime m c
        = dfs_loop net limit rest visited totalTime m c"
    by (rule dfs_loop_skip[OF n])
  show "dfs_loop_calls net limit (neighbor # rest) visited totalTime m c stack
        = dfs_loop_calls net limit rest visited totalTime m c stack"
    by (rule dfs_loop_calls_skip[OF n])
next
  assume "node neighbor \<notin> visited" "js_less (newTime_of totalTime neighbor) limit"
  then have y: "node neighbor \<notin> visited \<and> js_less (newTime_of totalTime neighbor) limit" by simp
  show "hd (dfs_loop_calls net limit (neighbor # rest) visited totalTime m c stack)
        = (node neighbor # stack, insert (node neighbor) visited,
           newTime_of totalTime neighbor, c + 1)"
    by (simp add: dfs_loop_calls_take[OF y] dfs_calls.simps)
  show "dfs_loop net limit (neighbor # rest) visited totalTime m c
        = dfs_loop net limit rest visited totalTime
            (fst (dfs net limit (node neighbor) (insert (node neighbor) visited)
                    (newTime_of totalTime neighbor) m (c + 1))) c"
    by (rule dfs_loop_take[OF y])
qed

theorem dfs_threshold_strict_witness:
  "''B'' \<notin> {''A''} \<and>
   newTime_of (JFin 0) (edge ''B'' 100 0) = JFin 100 \<and>
   dfs_loop (single_edge_network 100) (JFin 100) [edge ''B'' 100 0] {''A''} (JFin 0) 1 1
     = (1, {''A''}, single_edge_network 100) \<and>
   dfs_loop_calls (single_edge_network 100) (JFin 100) [edge ''B'' 100 0] {''A''} (JFin 0) 1 1 [''A'']
     = [] \<and>
   js_less (newTime_of (JFin 0) (edge ''B'' 99 0)) (JFin 100) \<and>
   hd (dfs_loop_calls (single_edge_network 99) (JFin 100) [edge ''B'' 99 0] {''A''} (JFin 0) 1 1 [''A''])
     = ([''B'', ''A''], {''B'', ''A''}, JFin 99, 2) \<and>
   dfs_loop (single_edge_network 99) (JFin 100) [edge ''B'' 99 0] {''A''} (JFin 0) 1 1
     = (2, {''A''}, single_edge_network 99)"
  using dfs_threshold_strict[of "edge ''B'' 100 0" "{''A''}" "JFin 0" "JFin 100"
          "single_edge_network 100" "[]" 1 1 "[''A'']"]
        dfs_threshold_strict[of "edge ''B'' 99 0" "{''A''}" "JFin 0" "JFin 100"
          "single_edge_network 99" "[]" 1 1 "[''A'']"]
  by (simp add: edge_def dfs.simps single_edge_neighbors[unfolded edge_def])

text \<open>Seen from outside: an edge that costs exactly 100 is not taken, one that costs 99 is.\<close>

lemma findMaxExperiences_at_the_bound:
  "fst (findMaxExperiences (single_edge_network 100) ''A'') = 1"
  "fst (findMaxExperiences (single_edge_network 99) ''A'') = 2"
  by (simp_all add: findMaxExperiences_def dfs_eval single_edge_neighbors)

text \<open>
  C4. Every call of \<open>dfs\<close>, and every run of its loop over the neighbours, gives back the
  set \<open>visited\<close> (and the network) exactly as it received them. At the entry of every call
  made during a search from \<open>start\<close>, the set \<open>visited\<close> is exactly the set of nodes on
  the recursion stack, the stack has no node twice and ends in \<open>start\<close>, and the count of
  the path is the height of the stack. The result of the search is the largest such height,
  so no counted path visits a node twice.
\<close>

theorem dfs_visited_is_recursion_stack:
  "snd (dfs net limit current visited totalTime m c) = (visited, net) \<and>
   snd (dfs_loop net limit ns visited totalTime m c) = (visited, net) \<and>
   (\<forall>(stack, visited', totalTime', count) \<in> set (maxReachableCount_calls net start limit).
      visited' = set stack \<and> distinct stack \<and> last stack = start \<and> count = length stack) \<and>
   fst (maxReachableCount net start limit)
     = fold max (map (\<lambda>(stack, visited', totalTime', count). length stack)
                     (maxReachableCount_calls net start limit)) 0"
proof (intro conjI)
  show "snd (dfs net limit current visited totalTime m c) = (visited, net)"
    by (rule dfs_frame(1))
  show "snd (dfs_loop net limit ns visited totalTime m c) = (visited, net)"
    by (rule dfs_frame(2))
  have inv: "\<forall>(stack, visited', totalTime', count)
               \<in> set (dfs_calls net limit start {start} (JFin 0) 0 1 [start]).
        visited' = set stack \<and> distinct stack \<and> count = length stack \<and> last stack = last [start]"
    by (rule dfs_calls_invariant(1)) simp_all
  then show "\<forall>(stack, visited', totalTime', count) \<in> set (maxReachableCount_calls net start limit).
      visited' = set stack \<and> distinct stack \<and> last stack = start \<and> count = length stack"
    by (auto simp: maxReachableCount_calls_def)
  from inv have "map (\<lambda>(stack, visited', totalTime', count). count)
                     (dfs_calls net limit start {start} (JFin 0) 0 1 [start])
               = map (\<lambda>(stack, visited', totalTime', count). length stack)
                     (dfs_calls net limit start {start} (JFin 0) 0 1 [start])"
    by (intro map_cong) auto
  then show "fst (maxReachableCount net start limit)
     = fold max (map (\<lambda>(stack, visited', totalTime', count). length stack)
                     (maxReachableCount_calls net start limit)) 0"
    unfolding maxReachableCount_eq maxReachableCount_calls_def Let_def fst_conv
    using dfs_result_is_max_of_calls(1)[of net limit start "{start}" "JFin 0" 0 1 "[start]"]
    by (simp only:)
qed

theorem dfs_visited_is_recursion_stack_witness:
  "maxReachableCount_calls scenario_network ''A'' (JFin 100)
     = [([''A''], {''A''}, JFin 0, 1),
        ([''B'', ''A''], {''B'', ''A''}, JFin 15, 2),
        ([''D'', ''B'', ''A''], {''D'', ''B'', ''A''}, JFin 47, 3),
        ([''C'', ''A''], {''C'', ''A''}, JFin 23, 2)] \<and>
   {''D'', ''B'', ''A''} = set [''D'', ''B'', ''A''] \<and> distinct [''D'', ''B'', ''A''] \<and>
   last [''D'', ''B'', ''A''] = ''A'' \<and> (3::nat) = length [''D'', ''B'', ''A''] \<and>
   fst (maxReachableCount scenario_network ''A'' (JFin 100)) = 3 \<and>
   snd (dfs scenario_network (JFin 100) ''A'' {''A''} (JFin 0) 0 1) = ({''A''}, scenario_network)"
proof -
  have calls: "maxReachableCount_calls scenario_network ''A'' (JFin 100)
     = [([''A''], {''A''}, JFin 0, 1),
        ([''B'', ''A''], {''B'', ''A''}, JFin 15, 2),
        ([''D'', ''B'', ''A''], {''D'', ''B'', ''A''}, JFin 47, 3),
        ([''C'', ''A''], {''C'', ''A''}, JFin 23, 2)]"
    by (simp add: dfs_eval scenario_neighbors)
  note inst = dfs_visited_is_recursion_stack[of scenario_network "JFin 100" "''A''" "{''A''}"
               "JFin 0" 0 1 "[]" "''A''"]
  from inst have restored:
    "snd (dfs scenario_network (JFin 100) ''A'' {''A''} (JFin 0) 0 1) = ({''A''}, scenario_network)"
    by blast
  from inst have "\<forall>(stack, visited', totalTime', count)
        \<in> set (maxReachableCount_calls scenario_network ''A'' (JFin 100)).
      visited' = set stack \<and> distinct stack \<and> last stack = ''A'' \<and> count = length stack"
    by blast
  then have entry: "{''D'', ''B'', ''A''} = set [''D'', ''B'', ''A''] \<and> distinct [''D'', ''B'', ''A''] \<and>
      last [''D'', ''B'', ''A''] = ''A'' \<and> (3::nat) = length [''D'', ''B'', ''A'']"
    unfolding calls by simp
  from inst have "fst (maxReachableCount scenario_network ''A'' (JFin 100))
     = fold max (map (\<lambda>(stack, visited', totalTime', count). length stack)
                     (maxReachableCount_calls scenario_network ''A'' (JFin 100))) 0"
    by blast
  then have result: "fst (maxReachableCount scenario_network ''A'' (JFin 100)) = 3"
    unfolding calls by simp
  from calls entry result restored show ?thesis by blast
qed

text \<open>
  C5, as amended. For a registered island that was never visited (its \<open>lastVisit\<close> is
  \<open>-Infinity\<close>) and whose population is strictly positive, \<open>calculatePriority\<close> returns
  \<open>+Infinity\<close>, at every time \<open>now\<close>.
\<close>

theorem calculatePriority_unvisited_positive:
  "lastVisit net island = Some JNegInf \<Longrightarrow> populations net island = Some p \<Longrightarrow>
   js_less (JFin 0) p \<Longrightarrow> calculatePriority net now island = JPosInf"
  by (cases p) (simp_all add: calculatePriority_def js_or_zero_def js_sub_def)

theorem calculatePriority_unvisited_positive_witness:
  "lastVisit (registered_network 500) ''A'' = Some JNegInf \<and>
   populations (registered_network 500) ''A'' = Some (JFin 500) \<and>
   js_less (JFin 0) (JFin 500) \<and>
   calculatePriority (registered_network 500) 1000 ''A'' = JPosInf"
  using calculatePriority_unvisited_positive[of "registered_network 500" "''A''" "JFin 500" 1000]
  by (simp add: registered_fields)

text \<open>
  The claim as first stated, for every population including 0, fails: for a registered,
  never visited island with population 0 the product is \<open>0 * Infinity\<close>, which is \<open>NaN\<close>.
\<close>

theorem calculatePriority_population_zero_is_NaN:
  "calculatePriority (registered_network 0) 1000 ''A'' = JNaN"
  by (simp add: calculatePriority_def registered_fields js_or_zero_def js_sub_def)

text \<open>
  C6. With the interval 0, on two distinct islands whose only edges lead to each other,
  and with a clock that advances at every reading, \<open>shareKnowledge\<close> does not return: the
  loop runs forever.
\<close>

theorem shareKnowledge_cycle_diverges:
  assumes "strict_mono clock"
    and "a \<noteq> []" "b \<noteq> []" "a \<noteq> b"
    and "map node (neighbors_of net a) = [b]"
    and "map node (neighbors_of net b) = [a]"
  shows "shareKnowledge clock net a (JFin 0) = None"
proof (cases "shareKnowledge clock net a (JFin 0)")
  case None
  then show ?thesis .
next
  case (Some result)
  then have "shareKnowledge_loop clock (JFin 0) net {a} [a] 0 = Some result"
    by (simp add: shareKnowledge_def)
  from shareKnowledge_loop_cycle_never_returns[OF assms this] assms(4)
  have False by simp
  then show ?thesis ..
qed

theorem shareKnowledge_cycle_diverges_witness:
  "strict_mono (\<lambda>k. int k) \<and> shareKnowledge (\<lambda>k. int k) cycle_network ''A'' (JFin 0) = None"
proof -
  have m: "strict_mono (\<lambda>k. int k)" by (simp add: strict_mono_def)
  have "shareKnowledge (\<lambda>k. int k) cycle_network ''A'' (JFin 0) = None"
    by (rule shareKnowledge_cycle_diverges[OF m, where a = "''A''" and b = "''B''"])
       (simp_all add: cycle_neighbors edge_def)
  with m show ?thesis by simp
qed

text \<open>
  C7, as amended. For every pool of at most \<open>2^53\<close> canoes the counter follows the
  recursion stack. Every call of \<open>distributeResource\<close> returns with the counter at the
  value it had at entry, and so does \<open>distributeFrom\<close>. At the entry of every call made
  during \<open>distributeFrom\<close>, the counter equals the initial pool minus the number of open
  recursive calls that took a canoe.
\<close>

theorem canoes_stack_discipline:
  "canoesAvailable net \<le> 2 ^ 53 \<Longrightarrow>
   canoesAvailable (snd (distributeResource net current totalTime rc)) = canoesAvailable net \<and>
   canoesAvailable (snd (distributeFrom net start)) = canoesAvailable net \<and>
   (\<forall>(depth, canoes) \<in> set (distributeFrom_calls net start).
      canoes = canoesAvailable net - int depth)"
proof (intro conjI)
  assume bound: "canoesAvailable net \<le> 2 ^ 53"
  show "canoesAvailable (snd (distributeResource net current totalTime rc)) = canoesAvailable net"
    by (rule distributeResource_canoes(1)[OF bound])
  show "canoesAvailable (snd (distributeFrom net start)) = canoesAvailable net"
    using distributeResource_canoes(1)[of "net\<lparr>resourcesDistributed := {}\<rparr>" start "JFin 0" 0] bound
    by (simp add: distributeFrom_def)
  show "\<forall>(depth, canoes) \<in> set (distributeFrom_calls net start).
          canoes = canoesAvailable net - int depth"
    using distributeResource_calls_invariant(1)[of "net\<lparr>resourcesDistributed := {}\<rparr>" start "JFin 0" 0 0]
          bound
    by (auto simp: distributeFrom_calls_def)
qed

theorem canoes_stack_discipline_witness:
  "canoesAvailable scenario_network \<le> 2 ^ 53 \<and>
   distributeFrom_calls scenario_network ''A'' = [(0, 3), (1, 2), (2, 1), (1, 2)] \<and>
   canoesAvailable scenario_network = 3 \<and>
   canoesAvailable (snd (distributeFrom scenario_network ''A'')) = 3 \<and>
   (1::int) = canoesAvailable scenario_network - int 2"
proof -
  have bound: "canoesAvailable scenario_network \<le> 2 ^ 53"
    by (simp add: scenario_fields)
  have calls: "distributeFrom_calls scenario_network ''A'' = [(0, 3), (1, 2), (2, 1), (1, 2)]"
    by (simp add: distribute_eval scenario_neighbors scenario_fields)
  note inst = canoes_stack_discipline[OF bound, of "''A''" "JFin 0" 0 "''A''"]
  from inst have restored:
    "canoesAvailable (snd (distributeFrom scenario_network ''A'')) = canoesAvailable scenario_network"
    by blast
  from inst have "\<forall>(depth, canoes) \<in> set (distributeFrom_calls scenario_network ''A'').
      canoes = canoesAvailable scenario_network - int depth"
    by blast
  then have entry: "(1::int) = canoesAvailable scenario_network - int 2"
    unfolding calls by simp
  from bound calls restored entry show ?thesis by (simp add: scenario_fields)
qed

text \<open>
  The claim as first stated, for every pool, fails above \<open>2^53\<close>: from a pool of
  \<open>2^53 + 2\<close> the decrement gives \<open>2^53\<close> (the odd number between is not a double, and
  the tie goes to the even significand), the increment leaves \<open>2^53\<close>, and
  \<open>distributeFrom\<close> returns with two canoes fewer than it was given.
\<close>

lemma js_round_int_tie: "js_round_int 9007199254740993 = 9007199254740992"
proof -
  have "js_ulp 9007199254740993 = 2"
    by (subst js_ulp.simps) (simp add: js_ulp_small)
  then show ?thesis by (simp add: js_round_int_def Let_def)
qed

lemma large_pool_steps:
  "js_dec 9007199254740994 = 9007199254740992"
  "js_inc 9007199254740992 = 9007199254740992"
  by (simp_all add: js_dec_def js_inc_def js_round_int_tie)

lemma large_pool_neighbors:
  "neighbors_of large_pool_network ''A'' = [edge ''B'' 10 5]"
  "neighbors_of large_pool_network ''B'' = []"
  "canoesAvailable large_pool_network = 9007199254740994"
  by (simp_all add: large_pool_network_def neighbors_of_def addIslandOrExperience_def
        new_IslandNetwork_def Let_def)

theorem canoes_not_restored_above_2_53:
  "canoesAvailable large_pool_network = 9007199254740994 \<and>
   distributeFrom_calls large_pool_network ''A''
     = [(0, 9007199254740994), (1, 9007199254740992)] \<and>
   canoesAvailable (snd (distributeFrom large_pool_network ''A'')) = 9007199254740992"
  by (simp add: distributeFrom_def distributeFrom_calls_def
        distributeResource.simps distributeResource_loop.simps
        distributeResource_calls.simps distributeResource_loop_calls.simps edge_def Let_def
        large_pool_neighbors large_pool_steps)

text \<open>
  C8. Membership in \<open>resourcesDistributed\<close> is never taken back: a call of
  \<open>distributeResource\<close> returns a superset of the set it was given, and the count grows
  by exactly the number of nodes added. So \<open>distributeFrom\<close> returns the number of
  distinct nodes planted during the call, each counted once, whatever the number of paths
  that lead to it.
\<close>

theorem distributeFrom_counts_each_node_once:
  "resourcesDistributed net \<subseteq> resourcesDistributed (snd (distributeResource net current totalTime rc)) \<and>
   fst (distributeResource net current totalTime rc)
     = rc + card (resourcesDistributed (snd (distributeResource net current totalTime rc))
                  - resourcesDistributed net) \<and>
   fst (distributeFrom net start) = card (resourcesDistributed (snd (distributeFrom net start)))"
proof (intro conjI)
  show "resourcesDistributed net
          \<subseteq> resourcesDistributed (snd (distributeResource net current totalTime rc))"
    using distributeResource_grows(1)[of net current totalTime rc] by simp
  show "fst (distributeResource net current totalTime rc)
     = rc + card (resourcesDistributed (snd (distributeResource net current totalTime rc))
                  - resourcesDistributed net)"
    by (rule distributeResource_count(1))
  show "fst (distributeFrom net start) = card (resourcesDistributed (snd (distributeFrom net start)))"
    using distributeResource_count(1)[of "net\<lparr>resourcesDistributed := {}\<rparr>" start "JFin 0" 0]
    by (simp add: distributeFrom_def)
qed

theorem distributeFrom_counts_each_node_once_witness:
  "fst (distributeFrom diamond_network ''A'') = 4 \<and>
   resourcesDistributed (snd (distributeFrom diamond_network ''A'')) = {''C'', ''D'', ''B'', ''A''} \<and>
   fst (distributeFrom diamond_network ''A'')
     = card (resourcesDistributed (snd (distributeFrom diamond_network ''A'')))"
  using distributeFrom_counts_each_node_once[of diamond_network "''A''" "JFin 0" 0 "''A''"]
  by (simp add: distribute_eval diamond_neighbors diamond_fields)

text \<open>
  C9. With no canoe available, \<open>distributeFrom\<close> returns 1 for every network and every
  start node, whatever the edges of the start node: the start node is planted and counted
  on entry, and no edge is descended. The start node is then the only node planted.
\<close>

theorem distributeFrom_no_canoes:
  "canoesAvailable net = 0 \<Longrightarrow>
   fst (distributeFrom net start) = 1 \<and>
   resourcesDistributed (snd (distributeFrom net start)) = {start}"
  by (simp add: distributeFrom_def distributeResource.simps Let_def
        distributeResource_loop_no_canoes)

theorem distributeFrom_no_canoes_witness:
  "canoesAvailable (single_edge_network 15) = 0 \<and>
   neighbors_of (single_edge_network 15) ''A'' = [edge ''B'' 15 0] \<and>
   fst (distributeFrom (single_edge_network 15) ''A'') = 1 \<and>
   resourcesDistributed (snd (distributeFrom (single_edge_network 15) ''A'')) = {''A''}"
  using distributeFrom_no_canoes[of "single_edge_network 15" "''A''"]
  by (simp add: single_edge_fields single_edge_neighbors)

text \<open>
  C10. \<open>findMaxExperiences\<close> leaves the network as it found it: the graph, the
  populations, the last-visit times (and the two distribution fields) are unchanged when
  the call returns.
\<close>

theorem findMaxExperiences_frame: "snd (findMaxExperiences net start) = net"
  by (simp add: findMaxExperiences_def maxReachableCount_eq)

end
